theory Spec2Isabelle
  imports Main
begin

section \<open>JavaScript values that the page handles\<close>

text \<open>
  The page (\<^verbatim>\<open>src/app/page.tsx\<close>) is a React component written in TypeScript. Its types are
  erased at run time: the value stored by \<^verbatim>\<open>setResult\<close> is whatever \<^verbatim>\<open>res.json()\<close> returned. Such
  values are modelled by the datatype below. Numbers are the integers (the data model of the
  analysis result has integer scores); an object is the list of its own properties in
  enumeration order; \<open>JNull\<close> is JavaScript's \<^verbatim>\<open>null\<close>. A string is a list of characters.
\<close>

datatype json =
    JNull
  | JBool bool
  | JNum int
  | JStr string
  | JArr "json list"
  | JObj "(string \<times> json) list"

text \<open>A thrown exception object; the page only ever reads its \<^verbatim>\<open>message\<close>.\<close>

datatype js_error = JsError (message: string)

text \<open>ToBoolean, as used by \<^verbatim>\<open>!x\<close>, \<^verbatim>\<open>x || y\<close> and \<^verbatim>\<open>x && y\<close>.\<close>

fun truthy :: "json \<Rightarrow> bool" where
  "truthy JNull = False"
| "truthy (JBool b) = b"
| "truthy (JNum n) = (n \<noteq> 0)"
| "truthy (JStr s) = (s \<noteq> [])"
| "truthy (JArr xs) = True"
| "truthy (JObj kvs) = True"

text \<open>Number-to-string conversion of an integer: its decimal digits.\<close>

definition digit_char :: "nat \<Rightarrow> char" where
  "digit_char d = ''0123456789'' ! d"

fun show_nat :: "nat \<Rightarrow> string" where
  "show_nat n = (if n < 10 then [digit_char n] else show_nat (n div 10) @ [digit_char (n mod 10)])"

declare show_nat.simps [simp del]

definition show_int :: "int \<Rightarrow> string" where
  "show_int i = (if i < 0 then CHR ''-'' # show_nat (nat (- i)) else show_nat (nat i))"

text \<open>\<^verbatim>\<open>Array.prototype.join\<close> on strings.\<close>

fun join :: "string \<Rightarrow> string list \<Rightarrow> string" where
  "join sep [] = []"
| "join sep [x] = x"
| "join sep (x # y # ys) = x @ sep @ join sep (y # ys)"

text \<open>
  ToString, as applied by a template literal and by \<^verbatim>\<open>new Error(x)\<close>. An array is joined with
  commas, a \<^verbatim>\<open>null\<close> element giving the empty string.
\<close>

fun js_to_string :: "json \<Rightarrow> string" where
  "js_to_string JNull = ''null''"
| "js_to_string (JBool b) = (if b then ''true'' else ''false'')"
| "js_to_string (JNum n) = show_int n"
| "js_to_string (JStr s) = s"
| "js_to_string (JArr xs) = join '','' (map (\<lambda>x. if x = JNull then [] else js_to_string x) xs)"
| "js_to_string (JObj kvs) = ''[object Object]''"

text \<open>
  Reading a property \<^verbatim>\<open>v.k\<close>, for a name \<open>k\<close> that no built-in prototype defines (the page reads
  \<^verbatim>\<open>error\<close>, \<^verbatim>\<open>ticker\<close> and \<^verbatim>\<open>runId\<close>). On \<^verbatim>\<open>null\<close> the read throws a TypeError (\<open>None\<close>); on an
  object without the property, and on every other value, it gives \<^verbatim>\<open>undefined\<close> (\<open>Some None\<close>).
\<close>

fun get_prop :: "json \<Rightarrow> string \<Rightarrow> json option option" where
  "get_prop JNull k = None"
| "get_prop (JObj kvs) k = Some (map_of kvs k)"
| "get_prop v k = Some None"

subsection \<open>JSON.stringify\<close>

text \<open>
  The platform's \<^verbatim>\<open>JSON.stringify(value, null, space)\<close> after ECMA-262 (QuoteJSONString,
  SerializeJSONArray, SerializeJSONObject). \<open>gap\<close> is the indentation unit (empty for the
  compact form) and \<open>ind\<close> the current indentation.
\<close>

definition hex_digit :: "nat \<Rightarrow> char" where
  "hex_digit d = ''0123456789abcdef'' ! d"

definition quote_char :: "char \<Rightarrow> string" where
  "quote_char c =
    (if c = CHR 0x08 then [CHR 0x5C, CHR ''b'']
     else if c = CHR 0x09 then [CHR 0x5C, CHR ''t'']
     else if c = CHR 0x0A then [CHR 0x5C, CHR ''n'']
     else if c = CHR 0x0C then [CHR 0x5C, CHR ''f'']
     else if c = CHR 0x0D then [CHR 0x5C, CHR ''r'']
     else if c = CHR 0x22 then [CHR 0x5C, CHR 0x22]
     else if c = CHR 0x5C then [CHR 0x5C, CHR 0x5C]
     else if (of_char c :: nat) < 32
       then [CHR 0x5C, CHR ''u'', CHR ''0'', CHR ''0'',
             hex_digit ((of_char c :: nat) div 16), hex_digit ((of_char c :: nat) mod 16)]
     else [c])"

definition quote :: "string \<Rightarrow> string" where
  "quote s = CHR 0x22 # concat (map quote_char s) @ [CHR 0x22]"

fun ser :: "string \<Rightarrow> string \<Rightarrow> json \<Rightarrow> string" where
  "ser gap ind JNull = ''null''"
| "ser gap ind (JBool b) = (if b then ''true'' else ''false'')"
| "ser gap ind (JNum n) = show_int n"
| "ser gap ind (JStr s) = quote s"
| "ser gap ind (JArr xs) =
    (if xs = [] then ''[]''
     else if gap = [] then ''['' @ join '','' (map (ser gap (ind @ gap)) xs) @ '']''
     else ''['' @ [CHR 0x0A] @ (ind @ gap)
          @ join ('','' @ [CHR 0x0A] @ (ind @ gap)) (map (ser gap (ind @ gap)) xs)
          @ [CHR 0x0A] @ ind @ '']'')"
| "ser gap ind (JObj kvs) =
    (if kvs = [] then ''{}''
     else if gap = []
       then ''{'' @ join '','' (map (\<lambda>(k, v). quote k @ '':'' @ ser gap (ind @ gap) v) kvs) @ ''}''
     else ''{'' @ [CHR 0x0A] @ (ind @ gap)
          @ join ('','' @ [CHR 0x0A] @ (ind @ gap))
              (map (\<lambda>(k, v). quote k @ '': '' @ ser gap (ind @ gap) v) kvs)
          @ [CHR 0x0A] @ ind @ ''}'')"

text \<open>\<^verbatim>\<open>JSON.stringify(v)\<close> and \<^verbatim>\<open>JSON.stringify(v, null, n)\<close> (at most ten spaces).\<close>

definition JSON_stringify :: "json \<Rightarrow> string" where
  "JSON_stringify v = ser [] [] v"

definition JSON_stringify_indent :: "nat \<Rightarrow> json \<Rightarrow> string" where
  "JSON_stringify_indent n v = ser (replicate (min n 10) CHR '' '') [] v"

subsection \<open>JSON.parse\<close>

text \<open>
  The platform's \<^verbatim>\<open>JSON.parse\<close> after ECMA-404 and ECMA-262, on the texts whose value the datatype
  \<open>json\<close> can hold. \<open>None\<close> stands for the SyntaxError, and also for a text outside the model: one
  with a number that has a fraction or an exponent or is not a safe integer, with a
  \<^verbatim>\<open>\u\<close> escape above \<^verbatim>\<open>00ff\<close>, or with a property name that is an array index (which JavaScript
  enumerates out of order). A repeated property name keeps its first position and its last
  value. The recursion over nested values is bounded by fuel, which the length of the text
  suffices for.
\<close>

definition is_ws :: "char \<Rightarrow> bool" where
  "is_ws c = (c = CHR '' '' \<or> c = CHR 0x09 \<or> c = CHR 0x0A \<or> c = CHR 0x0D)"

definition skip_ws :: "string \<Rightarrow> string" where
  "skip_ws s = dropWhile is_ws s"

definition is_digit :: "char \<Rightarrow> bool" where
  "is_digit c = (48 \<le> (of_char c :: nat) \<and> (of_char c :: nat) \<le> 57)"

definition digit_val :: "char \<Rightarrow> int" where
  "digit_val c = of_char c - 48"

fun parse_digits :: "int \<Rightarrow> string \<Rightarrow> int \<times> string" where
  "parse_digits acc [] = (acc, [])"
| "parse_digits acc (c # cs) =
    (if is_digit c then parse_digits (10 * acc + digit_val c) cs else (acc, c # cs))"

definition parse_number :: "string \<Rightarrow> (json \<times> string) option" where
  "parse_number s =
    (let (neg, t) = (case s of [] \<Rightarrow> (False, s) | c # cs \<Rightarrow> if c = CHR ''-'' then (True, cs) else (False, s))
     in case t of
          [] \<Rightarrow> None
        | d # ds \<Rightarrow>
            if \<not> is_digit d then None
            else if d = CHR ''0'' \<and> (case ds of [] \<Rightarrow> False | e # es \<Rightarrow> is_digit e) then None
            else
              (case parse_digits 0 t of
                 (n, rest) \<Rightarrow>
                   if (case rest of [] \<Rightarrow> False | e # es \<Rightarrow> e = CHR ''.'' \<or> e = CHR ''e'' \<or> e = CHR ''E'')
                     then None
                   else if n > 9007199254740991 then None
                   else Some (JNum (if neg then - n else n), rest)))"

definition hex_val :: "char \<Rightarrow> nat option" where
  "hex_val c =
    (let n = (of_char c :: nat) in
     if 48 \<le> n \<and> n \<le> 57 then Some (n - 48)
     else if 97 \<le> n \<and> n \<le> 102 then Some (n - 87)
     else if 65 \<le> n \<and> n \<le> 70 then Some (n - 55)
     else None)"

definition unescape :: "char \<Rightarrow> char option" where
  "unescape e =
    (if e = CHR 0x22 then Some (CHR 0x22)
     else if e = CHR 0x5C then Some (CHR 0x5C)
     else if e = CHR ''/'' then Some (CHR ''/'')
     else if e = CHR ''b'' then Some (CHR 0x08)
     else if e = CHR ''f'' then Some (CHR 0x0C)
     else if e = CHR ''n'' then Some (CHR 0x0A)
     else if e = CHR ''r'' then Some (CHR 0x0D)
     else if e = CHR ''t'' then Some (CHR 0x09)
     else None)"

fun parse_chars :: "string \<Rightarrow> (string \<times> string) option" where
  "parse_chars [] = None"
| "parse_chars (c # cs) =
    (if c = CHR 0x22 then Some ([], cs)
     else if c = CHR 0x5C then
       (case cs of
          [] \<Rightarrow> None
        | e # cs1 \<Rightarrow>
            if e = CHR ''u'' then
              (case cs1 of
                 h1 # h2 # h3 # h4 # cs2 \<Rightarrow>
                   (case (hex_val h1, hex_val h2, hex_val h3, hex_val h4) of
                      (Some a, Some b, Some c', Some d) \<Rightarrow>
                        if ((a * 16 + b) * 16 + c') * 16 + d < 256
                        then map_option (\<lambda>(s, r). (char_of (((a * 16 + b) * 16 + c') * 16 + d) # s, r))
                               (parse_chars cs2)
                        else None
                    | _ \<Rightarrow> None)
               | _ \<Rightarrow> None)
            else
              (case unescape e of
                 None \<Rightarrow> None
               | Some x \<Rightarrow> map_option (\<lambda>(s, r). (x # s, r)) (parse_chars cs1)))
     else if (of_char c :: nat) < 32 then None
     else map_option (\<lambda>(s, r). (c # s, r)) (parse_chars cs))"

definition is_array_index :: "string \<Rightarrow> bool" where
  "is_array_index k =
    (k \<noteq> [] \<and> list_all is_digit k \<and> (k = ''0'' \<or> hd k \<noteq> CHR ''0'')
     \<and> fst (parse_digits 0 k) < 4294967295)"

definition obj_put :: "string \<Rightarrow> json \<Rightarrow> (string \<times> json) list \<Rightarrow> (string \<times> json) list option" where
  "obj_put k v kvs =
    (if is_array_index k then None
     else if k \<in> fst ` set kvs then Some (map (\<lambda>(k', v'). if k' = k then (k', v) else (k', v')) kvs)
     else Some (kvs @ [(k, v)]))"

fun parse_value :: "nat \<Rightarrow> string \<Rightarrow> (json \<times> string) option"
  and parse_elements :: "nat \<Rightarrow> json list \<Rightarrow> string \<Rightarrow> (json \<times> string) option"
  and parse_members :: "nat \<Rightarrow> (string \<times> json) list \<Rightarrow> string \<Rightarrow> (json \<times> string) option"
where
  "parse_value 0 s = None"
| "parse_value (Suc f) s =
    (case s of
       [] \<Rightarrow> None
     | c # cs \<Rightarrow>
         if c = CHR ''n'' then (if take 3 cs = ''ull'' then Some (JNull, drop 3 cs) else None)
         else if c = CHR ''t'' then (if take 3 cs = ''rue'' then Some (JBool True, drop 3 cs) else None)
         else if c = CHR ''f'' then (if take 4 cs = ''alse'' then Some (JBool False, drop 4 cs) else None)
         else if c = CHR 0x22 then map_option (\<lambda>(str, r). (JStr str, r)) (parse_chars cs)
         else if c = CHR ''['' then
           (case skip_ws cs of
              [] \<Rightarrow> None
            | d # ds \<Rightarrow> if d = CHR '']'' then Some (JArr [], ds) else parse_elements f [] (d # ds))
         else if c = CHR ''{'' then
           (case skip_ws cs of
              [] \<Rightarrow> None
            | d # ds \<Rightarrow> if d = CHR ''}'' then Some (JObj [], ds) else parse_members f [] (d # ds))
         else parse_number s)"
| "parse_elements 0 acc s = None"
| "parse_elements (Suc f) acc s =
    (case parse_value f s of
       None \<Rightarrow> None
     | Some (v, r) \<Rightarrow>
         (case skip_ws r of
            [] \<Rightarrow> None
          | c # cs \<Rightarrow>
              if c = CHR '','' then parse_elements f (acc @ [v]) (skip_ws cs)
              else if c = CHR '']'' then Some (JArr (acc @ [v]), cs)
              else None))"
| "parse_members 0 acc s = None"
| "parse_members (Suc f) acc s =
    (case s of
       [] \<Rightarrow> None
     | q # cs \<Rightarrow>
         if q \<noteq> CHR 0x22 then None
         else
           (case parse_chars cs of
              None \<Rightarrow> None
            | Some (k, r) \<Rightarrow>
                (case skip_ws r of
                   [] \<Rightarrow> None
                 | c # cs1 \<Rightarrow>
                     if c \<noteq> CHR '':'' then None
                     else
                       (case parse_value f (skip_ws cs1) of
                          None \<Rightarrow> None
                        | Some (v, r1) \<Rightarrow>
                            (case obj_put k v acc of
                               None \<Rightarrow> None
                             | Some acc1 \<Rightarrow>
                                 (case skip_ws r1 of
                                    [] \<Rightarrow> None
                                  | c1 # cs2 \<Rightarrow>
                                      if c1 = CHR '','' then parse_members f acc1 (skip_ws cs2)
                                      else if c1 = CHR ''}'' then Some (JObj acc1, cs2)
                                      else None))))))"

definition JSON_parse :: "string \<Rightarrow> json option" where
  "JSON_parse s =
    (case parse_value (Suc (length s)) (skip_ws s) of
       None \<Rightarrow> None
     | Some (v, r) \<Rightarrow> if skip_ws r = [] then Some v else None)"

text \<open>
  The values whose JSON text the model reads back: every number is a safe integer, and in
  every object the property names are distinct and none is an array index.
\<close>

fun json_ok :: "json \<Rightarrow> bool" where
  "json_ok JNull = True"
| "json_ok (JBool b) = True"
| "json_ok (JNum n) = (\<bar>n\<bar> \<le> 9007199254740991)"
| "json_ok (JStr s) = True"
| "json_ok (JArr xs) = list_all json_ok xs"
| "json_ok (JObj kvs) =
    (distinct (map fst kvs) \<and> list_all (\<lambda>(k, v). \<not> is_array_index k \<and> json_ok v) kvs)"

text \<open>
  Two properties of texts for the proofs: a text that may follow a number (it does not go on
  with a digit, a fraction or an exponent), and a text that begins with a value.
\<close>

definition follow_ok :: "string \<Rightarrow> bool" where
  "follow_ok s = (case s of [] \<Rightarrow> True
     | c # cs \<Rightarrow> \<not> is_digit c \<and> c \<noteq> CHR ''.'' \<and> c \<noteq> CHR ''e'' \<and> c \<noteq> CHR ''E'')"

definition starts_value :: "string \<Rightarrow> bool" where
  "starts_value s = (case s of [] \<Rightarrow> False
     | c # cs \<Rightarrow> \<not> is_ws c \<and> c \<noteq> CHR '']'' \<and> c \<noteq> CHR ''}'')"

section \<open>The fetch interface\<close>

datatype ticker = VOLV_B | HM_B

fun ticker_value :: "ticker \<Rightarrow> string" where
  "ticker_value VOLV_B = ''VOLV-B''"
| "ticker_value HM_B = ''HM-B''"

text \<open>A picked file: its name and its bytes.\<close>

datatype js_file = File (file_name: string) (file_bytes: "nat list")

text \<open>\<^verbatim>\<open>FormData\<close>: the list of its entries, \<^verbatim>\<open>append\<close> adding one at the end.\<close>

datatype form_value = FieldText string | FieldFile js_file

type_synonym form_data = "(string \<times> form_value) list"

definition form_append :: "form_data \<Rightarrow> string \<Rightarrow> form_value \<Rightarrow> form_data" where
  "form_append fd k v = fd @ [(k, v)]"

record request =
  url :: string
  http_method :: string
  body :: form_data

text \<open>
  A response as the network delivers it: the status, whether it has a body at all
  (\<^verbatim>\<open>res.body\<close> is \<^verbatim>\<open>null\<close> only for a response without one, as one of status 204), and for
  a response with a body the body's text and what \<^verbatim>\<open>JSON.parse\<close> makes of that text: a value, or
  the SyntaxError it throws.
\<close>

record response =
  status :: nat
  has_body :: bool
  body_text :: string
  body_json :: "js_error + json"

definition ok :: "response \<Rightarrow> bool" where
  "ok r = (200 \<le> status r \<and> status r \<le> 299)"

text \<open>The promise that \<^verbatim>\<open>fetch\<close> returns either rejects or fulfils with a response.\<close>

datatype fetch_outcome = Rejected js_error | Responded response

text \<open>
  The messages of the platform's own exceptions differ between browsers; those the page can
  surface are parameters: the TypeError of a second read of a response body, and the
  SyntaxError of parsing the empty text.
\<close>

record platform =
  body_used_message :: string
  empty_json_message :: string

text \<open>What the body parses to; without a body there is only the empty text, which is not JSON.\<close>

definition json_of :: "platform \<Rightarrow> response \<Rightarrow> js_error + json" where
  "json_of pf r = (if has_body r then body_json r else Inl (JsError (empty_json_message pf)))"

text \<open>
  \<^verbatim>\<open>res.json()\<close> and \<^verbatim>\<open>res.text()\<close> (Fetch Standard, "consume body"): a body can be read once.
  \<open>used\<close> says whether the body has been read; a read of a body that has been read rejects with
  a TypeError. Each returns its result with the new flag.
\<close>

definition res_json :: "platform \<Rightarrow> response \<Rightarrow> bool \<Rightarrow> (js_error + json) \<times> bool" where
  "res_json pf r used =
    (if has_body r \<and> used then (Inl (JsError (body_used_message pf)), used)
     else (json_of pf r, has_body r))"

definition res_text :: "platform \<Rightarrow> response \<Rightarrow> bool \<Rightarrow> (js_error + string) \<times> bool" where
  "res_text pf r used =
    (if has_body r \<and> used then (Inl (JsError (body_used_message pf)), used)
     else (Inr (if has_body r then body_text r else []), has_body r))"

section \<open>The page's state and its handlers\<close>

text \<open>The five \<^verbatim>\<open>useState\<close> cells of \<^verbatim>\<open>HomePage\<close>. \<open>result = JNull\<close> is \<^verbatim>\<open>result === null\<close>.\<close>

record state =
  files :: "js_file list option"
  ticker :: ticker
  loading :: bool
  result :: json
  error :: "string option"

definition initial :: state where
  "initial = \<lparr>files = None, ticker = VOLV_B, loading = False, result = JNull, error = None\<rparr>"

definition handleFileChange :: "js_file list option \<Rightarrow> state \<Rightarrow> state" where
  "handleFileChange fs st = st\<lparr>files := fs\<rparr>"

definition setTicker :: "ticker \<Rightarrow> state \<Rightarrow> state" where
  "setTicker t st = st\<lparr>ticker := t\<rparr>"

definition validation_message :: string where
  "validation_message = ''Please select at least one PDF file.''"

definition endpoint :: string where
  "endpoint = ''http://localhost:4000/api/analyze''"

text \<open>
  \<^verbatim>\<open>handleSubmit\<close> up to the call of \<^verbatim>\<open>fetch\<close> (lines 30 to 47): the new state, and the request
  that is issued, if one is.
\<close>

definition handleSubmit_begin :: "state \<Rightarrow> state \<times> request option" where
  "handleSubmit_begin st =
    (case files st of
       None \<Rightarrow> (st\<lparr>error := Some validation_message\<rparr>, None)
     | Some fs \<Rightarrow>
         if length fs = 0 then (st\<lparr>error := Some validation_message\<rparr>, None)
         else
           (st\<lparr>loading := True, error := None, result := JNull\<rparr>,
            Some \<lparr>url = endpoint, http_method = ''POST'',
                  body = foldl (\<lambda>fd f. form_append fd ''files'' (FieldFile f))
                           (form_append [] ''ticker'' (FieldText (ticker_value (ticker st)))) fs\<rparr>))"

text \<open>
  Lines 50 to 57: the message for a response that is not ok. \<open>Inl\<close> when the \<^verbatim>\<open>catch\<close> block
  itself throws, which leaves the inner \<^verbatim>\<open>try\<close> statement.
\<close>

definition text_fallback :: "platform \<Rightarrow> response \<Rightarrow> bool \<Rightarrow> js_error + json" where
  "text_fallback pf r used =
    (case fst (res_text pf r used) of
       Inl e \<Rightarrow> Inl e
     | Inr t \<Rightarrow> Inr (JStr (if t \<noteq> [] then t else ''HTTP '' @ show_nat (status r))))"

definition error_message :: "platform \<Rightarrow> response \<Rightarrow> js_error + json" where
  "error_message pf r =
    (case res_json pf r False of
       (Inl e, used) \<Rightarrow> text_fallback pf r used
     | (Inr errJson, used) \<Rightarrow>
         (case get_prop errJson ''error'' of
            None \<Rightarrow> text_fallback pf r used
          | Some None \<Rightarrow> Inr (JStr (JSON_stringify errJson))
          | Some (Some v) \<Rightarrow> Inr (if truthy v then v else JStr (JSON_stringify errJson))))"

text \<open>
  The \<^verbatim>\<open>try\<close> block of lines 43 to 61 once \<^verbatim>\<open>fetch\<close> has settled: the parsed body, or the
  exception that reaches the \<^verbatim>\<open>catch\<close> clause of line 62.
\<close>

definition try_block :: "platform \<Rightarrow> fetch_outcome \<Rightarrow> js_error + json" where
  "try_block pf oc =
    (case oc of
       Rejected e \<Rightarrow> Inl e
     | Responded r \<Rightarrow>
         if \<not> ok r then
           (case error_message pf r of
              Inl e \<Rightarrow> Inl e
            | Inr errMsg \<Rightarrow> Inl (JsError (js_to_string errMsg)))
         else fst (res_json pf r False))"

text \<open>\<^verbatim>\<open>handleSubmit\<close> from the settling of \<^verbatim>\<open>fetch\<close> to its end (lines 48 to 67).\<close>

definition handleSubmit_resume :: "platform \<Rightarrow> fetch_outcome \<Rightarrow> state \<Rightarrow> state" where
  "handleSubmit_resume pf oc st =
    (case try_block pf oc of
       Inr v \<Rightarrow> st\<lparr>result := v\<rparr>
     | Inl e \<Rightarrow> st\<lparr>error := Some (if message e \<noteq> [] then message e else ''Unknown error'')\<rparr>)
    \<lparr>loading := False\<rparr>"

text \<open>
  One whole run of \<^verbatim>\<open>handleSubmit\<close>, \<open>net\<close> giving how \<^verbatim>\<open>fetch\<close> settles for a request: the final
  state and the requests issued.
\<close>

definition handleSubmit :: "platform \<Rightarrow> (request \<Rightarrow> fetch_outcome) \<Rightarrow> state \<Rightarrow> state \<times> request list" where
  "handleSubmit pf net st =
    (case handleSubmit_begin st of
       (st', None) \<Rightarrow> (st', [])
     | (st', Some rq) \<Rightarrow> (handleSubmit_resume pf (net rq) st', [rq]))"

text \<open>
  \<^verbatim>\<open>handleExportJson\<close> (lines 71 to 81): nothing when \<^verbatim>\<open>!result\<close>; else the download that the
  anchor's click starts. A template literal applies ToString to each part, \<^verbatim>\<open>undefined\<close> giving
  the text \<^verbatim>\<open>undefined\<close> (the result is truthy there, so reading its properties does not
  throw). The object URL is created and revoked within the handler.
\<close>

record download =
  filename :: string
  mime :: string
  content :: string

definition template_part :: "json option option \<Rightarrow> string" where
  "template_part p = (case p of Some (Some v) \<Rightarrow> js_to_string v | _ \<Rightarrow> ''undefined'')"

definition handleExportJson :: "state \<Rightarrow> download option" where
  "handleExportJson st =
    (if \<not> truthy (result st) then None
     else Some \<lparr>filename = template_part (get_prop (result st) ''ticker'') @ ''_analysis_''
                    @ template_part (get_prop (result st) ''runId'') @ ''.json'',
                mime = ''application/json'',
                content = JSON_stringify_indent 2 (result st)\<rparr>)"

section \<open>What the page renders\<close>

text \<open>Line 132: the submit button's \<^verbatim>\<open>disabled\<close> attribute.\<close>

definition submit_disabled :: "state \<Rightarrow> bool" where
  "submit_disabled st = loading st"

text \<open>
  The declared type of a result (lines 4 to 14), and the object that is such a result at run
  time, its properties in the order of the declaration.
\<close>

record AnalysisResult =
  ticker' :: string
  trustScore :: int
  trustJustification :: string
  trustRecommendations :: "string list"
  growthScore :: int
  growthJustification :: string
  growthRecommendations :: "string list"
  summary :: string
  runId :: string

definition analysis_json :: "AnalysisResult \<Rightarrow> json" where
  "analysis_json r = JObj
    [(''ticker'', JStr (ticker' r)),
     (''trustScore'', JNum (trustScore r)),
     (''trustJustification'', JStr (trustJustification r)),
     (''trustRecommendations'', JArr (map JStr (trustRecommendations r))),
     (''growthScore'', JNum (growthScore r)),
     (''growthJustification'', JStr (growthJustification r)),
     (''growthRecommendations'', JArr (map JStr (growthRecommendations r))),
     (''summary'', JStr (summary r)),
     (''runId'', JStr (runId r))]"

text \<open>
  A value has the declared type when it is an object with the nine properties, each of its
  type; their order and further properties are free.
\<close>

definition is_string :: "json option \<Rightarrow> bool" where
  "is_string p = (case p of Some (JStr s) \<Rightarrow> True | _ \<Rightarrow> False)"

definition is_number :: "json option \<Rightarrow> bool" where
  "is_number p = (case p of Some (JNum n) \<Rightarrow> True | _ \<Rightarrow> False)"

definition is_string_array :: "json option \<Rightarrow> bool" where
  "is_string_array p = (case p of Some (JArr xs) \<Rightarrow> list_all (\<lambda>x. is_string (Some x)) xs | _ \<Rightarrow> False)"

definition is_AnalysisResult :: "json \<Rightarrow> bool" where
  "is_AnalysisResult v =
    (case v of
       JObj kvs \<Rightarrow>
         is_string (map_of kvs ''ticker'')
         \<and> is_number (map_of kvs ''trustScore'')
         \<and> is_string (map_of kvs ''trustJustification'')
         \<and> is_string_array (map_of kvs ''trustRecommendations'')
         \<and> is_number (map_of kvs ''growthScore'')
         \<and> is_string (map_of kvs ''growthJustification'')
         \<and> is_string_array (map_of kvs ''growthRecommendations'')
         \<and> is_string (map_of kvs ''summary'')
         \<and> is_string (map_of kvs ''runId'')
     | _ \<Rightarrow> False)"

text \<open>
  The result panel (lines 142 to 189) for a result of the declared type: the elements with
  their text, the two sections as the \<^verbatim>\<open>div\<close>s they are.
\<close>

datatype node = H2 string | H3 string | H4 string | P string | UL "string list" | Button string

definition trust_section :: "AnalysisResult \<Rightarrow> node list" where
  "trust_section r =
    [H3 (''Trust (Transparency): '' @ show_int (trustScore r) @ ''/100''),
     P (trustJustification r)]
    @ (if length (trustRecommendations r) > 0
       then [H4 ''Transparency Recommendations:'', UL (trustRecommendations r)] else [])"

definition growth_section :: "AnalysisResult \<Rightarrow> node list" where
  "growth_section r =
    [H3 (''Growth (Differentiation): '' @ show_int (growthScore r) @ ''/100''),
     P (growthJustification r)]
    @ (if length (growthRecommendations r) > 0
       then [H4 ''Differentiation Recommendations:'', UL (growthRecommendations r)] else [])"

definition render_result :: "AnalysisResult \<Rightarrow> node list" where
  "render_result r =
    [H2 (''Results for '' @ ticker' r)] @ trust_section r @ growth_section r
    @ [P (summary r), P (''Run ID: '' @ runId r), Button ''Export JSON'']"

section \<open>The page as a transition system\<close>

text \<open>
  The events that reach the page: a change of the file input, a choice in the company selector,
  a click on the submit button, and the settling of the request in flight. A click on a
  disabled button submits nothing; a request settles only while one is in flight.
\<close>

datatype event =
    FilesPicked "js_file list option"
  | CompanySelected ticker
  | SubmitClicked
  | FetchSettled fetch_outcome

record ui =
  page :: state
  in_flight :: "request option"

definition initial_ui :: ui where
  "initial_ui = \<lparr>page = initial, in_flight = None\<rparr>"

fun step :: "platform \<Rightarrow> ui \<Rightarrow> event \<Rightarrow> ui" where
  "step pf u (FilesPicked fs) = u\<lparr>page := handleFileChange fs (page u)\<rparr>"
| "step pf u (CompanySelected t) = u\<lparr>page := setTicker t (page u)\<rparr>"
| "step pf u SubmitClicked =
    (if submit_disabled (page u) then u
     else (case handleSubmit_begin (page u) of (st', rq) \<Rightarrow> u\<lparr>page := st', in_flight := rq\<rparr>))"
| "step pf u (FetchSettled oc) =
    (case in_flight u of
       None \<Rightarrow> u
     | Some rq \<Rightarrow> u\<lparr>page := handleSubmit_resume pf oc (page u), in_flight := None\<rparr>)"

definition run :: "platform \<Rightarrow> ui \<Rightarrow> event list \<Rightarrow> ui" where
  "run pf u evs = foldl (step pf) u evs"

fun is_settle :: "event \<Rightarrow> bool" where
  "is_settle (FetchSettled oc) = True"
| "is_settle e = False"

text \<open>
  What holds of the result and the error in every state the page reaches: while a request is in
  flight both are \<^verbatim>\<open>null\<close> and the loading flag is set; otherwise the flag is clear; and the
  two are non-null together only when the error is the validation message.
\<close>

definition exclusive_inv :: "ui \<Rightarrow> bool" where
  "exclusive_inv u =
    ((in_flight u \<noteq> None \<longrightarrow> loading (page u) \<and> result (page u) = JNull \<and> error (page u) = None)
     \<and> (in_flight u = None \<longrightarrow> \<not> loading (page u))
     \<and> (error (page u) \<noteq> None \<and> result (page u) \<noteq> JNull \<longrightarrow>
          error (page u) = Some validation_message))"

section \<open>Concrete inputs\<close>

definition example_platform :: platform where
  "example_platform =
    \<lparr>body_used_message = ''Body has already been consumed.'',
     empty_json_message = ''Unexpected end of JSON input''\<rparr>"

definition example_result :: AnalysisResult where
  "example_result =
    \<lparr>ticker' = ''HM-B'', trustScore = 72, trustJustification = ''Clear reporting.'',
     trustRecommendations = [''Publish audit notes'', ''Name the auditors''], growthScore = 55,
     growthJustification = ''Flat sales.'', growthRecommendations = [],
     summary = ''Stable.'', runId = ''run-17''\<rparr>"

text \<open>The text that \<^verbatim>\<open>JSON.stringify(result, null, 2)\<close> gives for it.\<close>

definition example_export :: string where
  "example_export =
    ''{\<newline>  \"ticker\": \"HM-B\",\<newline>  \"trustScore\": 72,\<newline>  \"trustJustification\": \"Clear reporting.\",\<newline>  \"trustRecommendations\": [\<newline>    \"Publish audit notes\",\<newline>    \"Name the auditors\"\<newline>  ],\<newline>  \"growthScore\": 55,\<newline>  \"growthJustification\": \"Flat sales.\",\<newline>  \"growthRecommendations\": [],\<newline>  \"summary\": \"Stable.\",\<newline>  \"runId\": \"run-17\"\<newline>}''"

definition example_ok :: response where
  "example_ok =
    \<lparr>status = 200, has_body = True,
     body_text = JSON_stringify (analysis_json example_result),
     body_json = Inr (analysis_json example_result)\<rparr>"

definition example_files :: "js_file list" where
  "example_files = [File ''report-2023.pdf'' [37, 80, 68, 70], File ''report-2024.pdf'' [37, 80, 68, 70]]"

definition example_state :: state where
  "example_state = initial\<lparr>files := Some example_files, ticker := HM_B\<rparr>"

section \<open>Submission\<close>

lemma foldl_form_append:
  "foldl (\<lambda>fd f. form_append fd k (g f)) fd0 fs = fd0 @ map (\<lambda>f. (k, g f)) fs"
  by (induction fs arbitrary: fd0) (simp_all add: form_append_def)

lemma handleSubmit_begin_no_files:
  assumes "files st = None \<or> files st = Some []"
  shows "handleSubmit_begin st = (st\<lparr>error := Some validation_message\<rparr>, None)"
  using assms by (auto simp: handleSubmit_begin_def)

lemma handleSubmit_begin_files:
  assumes "files st = Some fs" and "fs \<noteq> []"
  shows "handleSubmit_begin st =
    (st\<lparr>loading := True, error := None, result := JNull\<rparr>,
     Some \<lparr>url = endpoint, http_method = ''POST'',
           body = (''ticker'', FieldText (ticker_value (ticker st)))
                  # map (\<lambda>f. (''files'', FieldFile f)) fs\<rparr>)"
proof -
  have "foldl (\<lambda>fd f. form_append fd ''files'' (FieldFile f))
          (form_append [] ''ticker'' (FieldText (ticker_value (ticker st)))) fs
        = (''ticker'', FieldText (ticker_value (ticker st))) # map (\<lambda>f. (''files'', FieldFile f)) fs"
    by (simp only: foldl_form_append) (simp add: form_append_def)
  with assms show ?thesis
    by (simp add: handleSubmit_begin_def)
qed

lemma loading_handleSubmit_resume: "\<not> loading (handleSubmit_resume pf oc st)"
  by (simp add: handleSubmit_resume_def split: sum.split)

text \<open>
  C2. When no file is selected (\<^verbatim>\<open>files\<close> is \<^verbatim>\<open>null\<close> or empty), \<^verbatim>\<open>handleSubmit\<close> issues no
  request, sets the error to the validation message and does not touch the loading flag: it is
  false afterwards whenever it was false before.
\<close>

theorem submit_without_files:
  assumes "files st = None \<or> files st = Some []"
  shows "snd (handleSubmit pf net st) = []
    \<and> snd (handleSubmit_begin st) = None
    \<and> error (fst (handleSubmit pf net st)) = Some ''Please select at least one PDF file.''
    \<and> loading (fst (handleSubmit pf net st)) = loading st
    \<and> (\<not> loading st \<longrightarrow> \<not> loading (fst (handleSubmit pf net st)))"
  by (simp add: handleSubmit_def handleSubmit_begin_no_files [OF assms] validation_message_def)

theorem submit_without_files_witness:
  "files (initial\<lparr>files := Some []\<rparr>) = Some []
   \<and> \<not> loading (initial\<lparr>files := Some []\<rparr>)
   \<and> snd (handleSubmit example_platform (\<lambda>rq. Responded example_ok) (initial\<lparr>files := Some []\<rparr>)) = []
   \<and> error (fst (handleSubmit example_platform (\<lambda>rq. Responded example_ok) (initial\<lparr>files := Some []\<rparr>)))
       = Some ''Please select at least one PDF file.''
   \<and> \<not> loading (fst (handleSubmit example_platform (\<lambda>rq. Responded example_ok) (initial\<lparr>files := Some []\<rparr>)))"
  using submit_without_files [of "initial\<lparr>files := Some []\<rparr>" example_platform "\<lambda>rq. Responded example_ok"]
  by (simp add: initial_def)

text \<open>
  C3. With at least one file selected, \<^verbatim>\<open>handleSubmit\<close> issues exactly one request: a POST to the
  fixed endpoint whose form data is the field \<^verbatim>\<open>ticker\<close> with the selected identifier followed
  by one \<^verbatim>\<open>files\<close> part for every selected file, in order. The identifier is \<^verbatim>\<open>VOLV-B\<close> or
  \<^verbatim>\<open>HM-B\<close>.
\<close>

theorem submit_issues_one_request:
  assumes "files st = Some fs" and "fs \<noteq> []"
  shows "snd (handleSubmit pf net st) =
      [\<lparr>url = ''http://localhost:4000/api/analyze'', http_method = ''POST'',
        body = (''ticker'', FieldText (ticker_value (ticker st)))
               # map (\<lambda>f. (''files'', FieldFile f)) fs\<rparr>]
    \<and> ticker_value (ticker st) = (case ticker st of VOLV_B \<Rightarrow> ''VOLV-B'' | HM_B \<Rightarrow> ''HM-B'')"
  by (simp add: handleSubmit_def handleSubmit_begin_files [OF assms] endpoint_def split: ticker.split)

theorem submit_issues_one_request_witness:
  "files example_state = Some example_files \<and> example_files \<noteq> []
   \<and> snd (handleSubmit example_platform (\<lambda>rq. Responded example_ok) example_state) =
      [\<lparr>url = ''http://localhost:4000/api/analyze'', http_method = ''POST'',
        body = [(''ticker'', FieldText ''HM-B''),
                (''files'', FieldFile (File ''report-2023.pdf'' [37, 80, 68, 70])),
                (''files'', FieldFile (File ''report-2024.pdf'' [37, 80, 68, 70]))]\<rparr>]"
  using submit_issues_one_request [of example_state example_files example_platform "\<lambda>rq. Responded example_ok"]
  by (simp add: example_state_def example_files_def initial_def)

section \<open>Errors\<close>

text \<open>The bodies of the responses used below, as \<^verbatim>\<open>JSON.parse\<close> reads them.\<close>

lemma example_bodies:
  "JSON_parse ''server down'' = None"
  "JSON_parse ''<html>'' = None"
  "JSON_parse [] = None"
  "JSON_parse ''{\"error\":\"boom\"}'' = Some (JObj [(''error'', JStr ''boom'')])"
  "JSON_parse ''{\"error\":\"busy\"}'' = Some (JObj [(''error'', JStr ''busy'')])"
  "JSON_parse ''{\"code\":7}'' = Some (JObj [(''code'', JNum 7)])"
  "JSON_parse ''{}'' = Some (JObj [])"
  by code_simp+

text \<open>
  C4. The response has status 500 and the plain-text body \<^verbatim>\<open>server down\<close>, on which \<^verbatim>\<open>res.json()\<close>
  fails. The \<^verbatim>\<open>catch\<close> block then reads the body a second time with \<^verbatim>\<open>res.text()\<close>, which
  rejects; the message shown is the one of that TypeError and not the body's text.
\<close>

theorem unparsable_error_body_reread:
  "error (handleSubmit_resume pf
      (Responded \<lparr>status = 500, has_body = True, body_text = ''server down'',
                   body_json = Inl (JsError m)\<rparr>) st)
    = Some (if body_used_message pf \<noteq> [] then body_used_message pf else ''Unknown error'')"
  by (simp add: handleSubmit_resume_def try_block_def ok_def error_message_def res_json_def
      json_of_def text_fallback_def res_text_def)

text \<open>
  C5. For a response that is not ok and whose body parses to an object with a non-empty string
  in its property \<^verbatim>\<open>error\<close>, the error shown is exactly that string.
\<close>

theorem service_error_surfaced:
  assumes "\<not> ok r" and "has_body r" and "body_json r = Inr (JObj kvs)"
    and "map_of kvs ''error'' = Some (JStr s)" and "s \<noteq> []"
  shows "error (handleSubmit_resume pf (Responded r) st) = Some s"
  using assms
  by (simp add: handleSubmit_resume_def try_block_def error_message_def res_json_def json_of_def)

theorem service_error_surfaced_witness:
  "\<not> ok \<lparr>status = 500, has_body = True, body_text = ''{\"error\":\"boom\"}'',
          body_json = Inr (JObj [(''error'', JStr ''boom'')])\<rparr>
   \<and> error (handleSubmit_resume example_platform
        (Responded \<lparr>status = 500, has_body = True, body_text = ''{\"error\":\"boom\"}'',
                     body_json = Inr (JObj [(''error'', JStr ''boom'')])\<rparr>)
        (fst (handleSubmit_begin example_state))) = Some ''boom''"
  using service_error_surfaced
    [of "\<lparr>status = 500, has_body = True, body_text = ''{\"error\":\"boom\"}'',
          body_json = Inr (JObj [(''error'', JStr ''boom'')])\<rparr>"
        "[(''error'', JStr ''boom'')]" "''boom''" example_platform
        "fst (handleSubmit_begin example_state)"]
  by (simp add: ok_def)

text \<open>
  C6. When \<^verbatim>\<open>fetch\<close> rejects with an exception, and when the body of an ok response does not
  parse, the error shown is the exception's message, or \<^verbatim>\<open>Unknown error\<close> when the message is
  empty.
\<close>

theorem transport_failure_surfaced:
  "error (handleSubmit_resume pf (Rejected e) st)
     = Some (if message e \<noteq> [] then message e else ''Unknown error'')
   \<and> (ok r \<and> json_of pf r = Inl e \<longrightarrow>
        error (handleSubmit_resume pf (Responded r) st)
          = Some (if message e \<noteq> [] then message e else ''Unknown error''))"
  by (simp add: handleSubmit_resume_def try_block_def res_json_def)

theorem transport_failure_surfaced_witness:
  "error (handleSubmit_resume example_platform (Rejected (JsError ''Failed to fetch'')) example_state)
     = Some ''Failed to fetch''
   \<and> ok \<lparr>status = 200, has_body = True, body_text = ''<html>'', body_json = Inl (JsError [])\<rparr>
   \<and> error (handleSubmit_resume example_platform
        (Responded \<lparr>status = 200, has_body = True, body_text = ''<html>'',
                     body_json = Inl (JsError [])\<rparr>) example_state)
     = Some ''Unknown error''"
  using transport_failure_surfaced
    [of example_platform "JsError ''Failed to fetch''" example_state]
    transport_failure_surfaced
    [of example_platform "JsError []" example_state
        "\<lparr>status = 200, has_body = True, body_text = ''<html>'', body_json = Inl (JsError [])\<rparr>"]
  by (simp add: ok_def json_of_def)

section \<open>Reading back what JSON.stringify wrote\<close>

subsection \<open>Numbers\<close>

lemma lt10_cases: "d < 10 \<Longrightarrow> d = 0 \<or> d = 1 \<or> d = 2 \<or> d = 3 \<or> d = 4 \<or> d = 5 \<or> d = 6 \<or> d = 7 \<or> d = 8 \<or> d = (9::nat)"
  by arith

lemma digit_char_props:
  assumes "d < 10"
  shows "is_digit (digit_char d)" and "digit_val (digit_char d) = int d"
    and "digit_char d = CHR ''0'' \<longleftrightarrow> d = 0"
  using lt10_cases [OF assms]
  by (auto simp: digit_char_def is_digit_def digit_val_def)

lemma show_nat_digits: "list_all is_digit (show_nat n)"
proof (induction n rule: show_nat.induct)
  case (1 n)
  show ?case
  proof (cases "n < 10")
    case True
    then show ?thesis by (simp add: show_nat.simps [of n] digit_char_props)
  next
    case False
    with 1 show ?thesis by (simp add: show_nat.simps [of n] digit_char_props)
  qed
qed

lemma show_nat_nonempty: "show_nat n \<noteq> []"
  by (simp add: show_nat.simps [of n])

lemma parse_digits_append:
  "list_all is_digit xs \<Longrightarrow>
   parse_digits acc (xs @ ys) = parse_digits (foldl (\<lambda>a c. 10 * a + digit_val c) acc xs) ys"
  by (induction xs arbitrary: acc) simp_all

lemma foldl_show_nat: "foldl (\<lambda>a c. 10 * a + digit_val c) 0 (show_nat n) = int n"
proof (induction n rule: show_nat.induct)
  case (1 n)
  show ?case
  proof (cases "n < 10")
    case True
    then show ?thesis by (simp add: show_nat.simps [of n] digit_char_props)
  next
    case False
    with 1 have "foldl (\<lambda>a c. 10 * a + digit_val c) 0 (show_nat (n div 10)) = int (n div 10)"
      by simp
    with False show ?thesis
      by (simp add: show_nat.simps [of n] digit_char_props) presburger
  qed
qed

lemma parse_digits_stop: "follow_ok r \<Longrightarrow> parse_digits acc r = (acc, r)"
  by (cases r) (simp_all add: follow_ok_def)

lemma parse_digits_show_nat:
  "follow_ok r \<Longrightarrow> parse_digits 0 (show_nat n @ r) = (int n, r)"
  by (simp add: parse_digits_append show_nat_digits foldl_show_nat parse_digits_stop)

lemma hd_show_nat_zero: "hd (show_nat n) = CHR ''0'' \<Longrightarrow> n = 0"
proof (induction n rule: show_nat.induct)
  case (1 n)
  show ?case
  proof (cases "n < 10")
    case True
    with "1.prems" show ?thesis by (simp add: show_nat.simps [of n] digit_char_props)
  next
    case False
    with "1.prems" have "hd (show_nat (n div 10)) = CHR ''0''"
      by (simp add: show_nat.simps [of n] show_nat_nonempty)
    with 1 False have "n div 10 = 0" by simp
    with False show ?thesis by simp
  qed
qed

lemma show_nat_0: "show_nat 0 = ''0''"
  by (simp add: show_nat.simps [of 0] digit_char_def)

lemma show_nat_hd_digit: "is_digit (hd (show_nat n))"
  using show_nat_digits [of n] show_nat_nonempty [of n] by (cases "show_nat n") simp_all

lemma parse_number_show_nat:
  assumes "follow_ok r" and "int n \<le> 9007199254740991"
  shows "parse_number (show_nat n @ r) = Some (JNum (int n), r)"
proof -
  obtain d ds where eq: "show_nat n = d # ds"
    using show_nat_nonempty [of n] by (cases "show_nat n") auto
  have dig: "is_digit d" using show_nat_hd_digit [of n] eq by simp
  then have nm: "d \<noteq> CHR ''-''" by (auto simp: is_digit_def)
  have lz: "\<not> (d = CHR ''0'' \<and> (case ds @ r of [] \<Rightarrow> False | e # es \<Rightarrow> is_digit e))"
  proof
    assume a: "d = CHR ''0'' \<and> (case ds @ r of [] \<Rightarrow> False | e # es \<Rightarrow> is_digit e)"
    with eq have "n = 0" using hd_show_nat_zero [of n] by simp
    with eq have "ds = []" by (simp add: show_nat_0)
    with a assms(1) show False by (cases r) (simp_all add: follow_ok_def)
  qed
  have pd: "parse_digits 0 (d # ds @ r) = (int n, r)"
    using parse_digits_show_nat [OF assms(1), of n] eq by simp
  have fr: "\<not> (case r of [] \<Rightarrow> False | e # es \<Rightarrow> e = CHR ''.'' \<or> e = CHR ''e'' \<or> e = CHR ''E'')"
    using assms(1) by (cases r) (simp_all add: follow_ok_def)
  show ?thesis
    unfolding parse_number_def eq using nm dig lz pd fr assms(2)
    by (simp del: parse_digits.simps)
qed

lemma parse_number_show_int:
  assumes "follow_ok r" and "\<bar>i\<bar> \<le> 9007199254740991"
  shows "parse_number (show_int i @ r) = Some (JNum i, r)"
proof (cases "i < 0")
  case False
  with assms show ?thesis
    using parse_number_show_nat [of r "nat i"] by (simp add: show_int_def)
next
  case True
  obtain d ds where eq: "show_nat (nat (- i)) = d # ds"
    using show_nat_nonempty [of "nat (- i)"] by (cases "show_nat (nat (- i))") auto
  have dig: "is_digit d" using show_nat_hd_digit [of "nat (- i)"] eq by simp
  have lz: "\<not> (d = CHR ''0'' \<and> (case ds @ r of [] \<Rightarrow> False | e # es \<Rightarrow> is_digit e))"
  proof
    assume a: "d = CHR ''0'' \<and> (case ds @ r of [] \<Rightarrow> False | e # es \<Rightarrow> is_digit e)"
    with eq have "nat (- i) = 0" using hd_show_nat_zero [of "nat (- i)"] by simp
    with True show False by simp
  qed
  have pd: "parse_digits 0 (d # ds @ r) = (int (nat (- i)), r)"
    using parse_digits_show_nat [OF assms(1), of "nat (- i)"] eq by simp
  have fr: "\<not> (case r of [] \<Rightarrow> False | e # es \<Rightarrow> e = CHR ''.'' \<or> e = CHR ''e'' \<or> e = CHR ''E'')"
    using assms(1) by (cases r) (simp_all add: follow_ok_def)
  from True assms(2) have b: "int (nat (- i)) \<le> 9007199254740991" by simp
  show ?thesis
    unfolding parse_number_def show_int_def using True eq dig lz pd fr b
    by (simp del: parse_digits.simps)
qed

subsection \<open>Strings\<close>

lemma lt16_cases: "k < 16 \<Longrightarrow> k = 0 \<or> k = 1 \<or> k = 2 \<or> k = 3 \<or> k = 4 \<or> k = 5 \<or> k = 6 \<or> k = 7
    \<or> k = 8 \<or> k = 9 \<or> k = 10 \<or> k = 11 \<or> k = 12 \<or> k = 13 \<or> k = 14 \<or> k = (15::nat)"
  by arith

lemma hex_val_hex_digit: "k < 16 \<Longrightarrow> hex_val (hex_digit k) = Some k"
  using lt16_cases [of k] by (auto simp: hex_val_def hex_digit_def)

lemma hex_val_zero: "hex_val (CHR ''0'') = Some 0"
  by (simp add: hex_val_def)

lemma parse_chars_control:
  assumes "(of_char c :: nat) < 32"
  shows "parse_chars (CHR 0x5C # CHR ''u'' # CHR ''0'' # CHR ''0''
            # hex_digit ((of_char c :: nat) div 16) # hex_digit ((of_char c :: nat) mod 16) # t)
         = map_option (\<lambda>(s, r). (c # s, r)) (parse_chars t)"
proof -
  have a: "hex_val (hex_digit ((of_char c :: nat) div 16)) = Some ((of_char c :: nat) div 16)"
    using assms by (intro hex_val_hex_digit) simp
  have b: "hex_val (hex_digit ((of_char c :: nat) mod 16)) = Some ((of_char c :: nat) mod 16)"
    by (intro hex_val_hex_digit) simp
  have v: "(of_char c :: nat) div 16 * 16 + (of_char c :: nat) mod 16 = of_char c"
    by simp
  have lt: "(of_char c :: nat) < 256" using assms by simp
  show ?thesis
    by (simp add: a b hex_val_zero v lt)
qed

lemma parse_chars_plain:
  "c \<noteq> CHR 0x22 \<Longrightarrow> c \<noteq> CHR 0x5C \<Longrightarrow> \<not> (of_char c :: nat) < 32 \<Longrightarrow>
   parse_chars (c # t) = map_option (\<lambda>(s, r). (c # s, r)) (parse_chars t)"
  by simp

lemma parse_chars_escape:
  "e \<noteq> CHR ''u'' \<Longrightarrow> unescape e = Some x \<Longrightarrow>
   parse_chars (CHR 0x5C # e # t) = map_option (\<lambda>(s, r). (x # s, r)) (parse_chars t)"
  by simp

lemma unescape_simps:
  "unescape (CHR ''b'') = Some (CHR 0x08)" "unescape (CHR ''t'') = Some (CHR 0x09)"
  "unescape (CHR ''n'') = Some (CHR 0x0A)" "unescape (CHR ''f'') = Some (CHR 0x0C)"
  "unescape (CHR ''r'') = Some (CHR 0x0D)" "unescape (CHR 0x22) = Some (CHR 0x22)"
  "unescape (CHR 0x5C) = Some (CHR 0x5C)"
  by (simp_all add: unescape_def)

lemma parse_chars_quote_char:
  "parse_chars (quote_char c @ t) = map_option (\<lambda>(s, r). (c # s, r)) (parse_chars t)"
proof -
  consider "c = CHR 0x08" | "c = CHR 0x09" | "c = CHR 0x0A" | "c = CHR 0x0C" | "c = CHR 0x0D"
    | "c = CHR 0x22" | "c = CHR 0x5C"
    | (ctl) "c \<noteq> CHR 0x08" "c \<noteq> CHR 0x09" "c \<noteq> CHR 0x0A" "c \<noteq> CHR 0x0C" "c \<noteq> CHR 0x0D"
        "c \<noteq> CHR 0x22" "c \<noteq> CHR 0x5C" "(of_char c :: nat) < 32"
    | (plain) "c \<noteq> CHR 0x08" "c \<noteq> CHR 0x09" "c \<noteq> CHR 0x0A" "c \<noteq> CHR 0x0C" "c \<noteq> CHR 0x0D"
        "c \<noteq> CHR 0x22" "c \<noteq> CHR 0x5C" "\<not> (of_char c :: nat) < 32"
    by blast
  then show ?thesis
  proof cases
    case 1
    then show ?thesis by (simp add: quote_char_def parse_chars_escape unescape_simps del: parse_chars.simps)
  next
    case 2
    then show ?thesis by (simp add: quote_char_def parse_chars_escape unescape_simps del: parse_chars.simps)
  next
    case 3
    then show ?thesis by (simp add: quote_char_def parse_chars_escape unescape_simps del: parse_chars.simps)
  next
    case 4
    then show ?thesis by (simp add: quote_char_def parse_chars_escape unescape_simps del: parse_chars.simps)
  next
    case 5
    then show ?thesis by (simp add: quote_char_def parse_chars_escape unescape_simps del: parse_chars.simps)
  next
    case 6
    then show ?thesis by (simp add: quote_char_def parse_chars_escape unescape_simps del: parse_chars.simps)
  next
    case 7
    then show ?thesis by (simp add: quote_char_def parse_chars_escape unescape_simps del: parse_chars.simps)
  next
    case ctl
    then show ?thesis
      using parse_chars_control [of c t] by (simp add: quote_char_def del: parse_chars.simps)
  next
    case plain
    then show ?thesis by (simp add: quote_char_def parse_chars_plain del: parse_chars.simps)
  qed
qed

lemma parse_chars_quoted:
  "parse_chars (concat (map quote_char s) @ CHR 0x22 # r) = Some (s, r)"
  by (induction s) (simp_all add: parse_chars_quote_char del: parse_chars.simps, simp)

lemma parse_chars_quote:
  "parse_chars (tl (quote s) @ r) = Some (s, r)"
  using parse_chars_quoted [of s r] by (simp add: quote_def)

subsection \<open>Arrays and objects\<close>

lemma skip_ws_ws: "list_all is_ws w \<Longrightarrow> skip_ws (w @ s) = skip_ws s"
  by (induction w) (simp_all add: skip_ws_def)

lemma skip_ws_stop: "\<not> is_ws c \<Longrightarrow> skip_ws (c # s) = c # s"
  by (simp add: skip_ws_def)

lemma follow_ok_ws: "list_all is_ws w \<Longrightarrow> follow_ok s \<Longrightarrow> follow_ok (w @ s)"
  by (cases w) (auto simp: follow_ok_def is_ws_def is_digit_def)

lemma follow_ok_punct:
  "follow_ok (CHR '','' # s)" "follow_ok (CHR '']'' # s)" "follow_ok (CHR ''}'' # s)"
  by (simp_all add: follow_ok_def is_digit_def)

lemma parse_value_null: "parse_value (Suc f) (''null'' @ r) = Some (JNull, r)"
  by simp

lemma parse_value_true: "parse_value (Suc f) (''true'' @ r) = Some (JBool True, r)"
  by simp

lemma parse_value_false: "parse_value (Suc f) (''false'' @ r) = Some (JBool False, r)"
  by simp

lemma parse_value_string:
  "parse_value (Suc f) (CHR 0x22 # cs) = map_option (\<lambda>(str, r). (JStr str, r)) (parse_chars cs)"
  by simp

lemma parse_value_array:
  "parse_value (Suc f) (CHR ''['' # cs) =
    (case skip_ws cs of
       [] \<Rightarrow> None
     | d # ds \<Rightarrow> if d = CHR '']'' then Some (JArr [], ds) else parse_elements f [] (d # ds))"
  by simp

lemma parse_value_object:
  "parse_value (Suc f) (CHR ''{'' # cs) =
    (case skip_ws cs of
       [] \<Rightarrow> None
     | d # ds \<Rightarrow> if d = CHR ''}'' then Some (JObj [], ds) else parse_members f [] (d # ds))"
  by simp

lemma parse_value_number:
  assumes "c = CHR ''-'' \<or> is_digit c"
  shows "parse_value (Suc f) (c # cs) = parse_number (c # cs)"
proof -
  from assms have "c \<noteq> CHR ''n''" "c \<noteq> CHR ''t''" "c \<noteq> CHR ''f''" "c \<noteq> CHR 0x22"
    "c \<noteq> CHR ''[''" "c \<noteq> CHR ''{''"
    by (auto simp: is_digit_def)
  then show ?thesis by simp
qed

lemma show_int_first: "\<exists>c cs. show_int i = c # cs \<and> (c = CHR ''-'' \<or> is_digit c)"
proof (cases "i < 0")
  case True
  then show ?thesis by (simp add: show_int_def)
next
  case False
  then show ?thesis
    using show_nat_hd_digit [of "nat i"] show_nat_nonempty [of "nat i"]
    by (cases "show_nat (nat i)") (simp_all add: show_int_def)
qed

lemma starts_value_ser: "starts_value (ser gap ind v)"
proof (cases v)
  case (JNum i)
  obtain c cs where "show_int i = c # cs" and "c = CHR ''-'' \<or> is_digit c"
    using show_int_first [of i] by blast
  with JNum show ?thesis by (auto simp: starts_value_def is_ws_def is_digit_def)
qed (simp_all add: starts_value_def is_ws_def quote_def)

lemma starts_value_append: "starts_value s \<Longrightarrow> starts_value (s @ t)"
  by (cases s) (simp_all add: starts_value_def)

lemma skip_ws_starts: "list_all is_ws w \<Longrightarrow> starts_value s \<Longrightarrow> skip_ws (w @ s) = s"
  by (cases s) (simp_all add: skip_ws_ws skip_ws_stop starts_value_def)

lemma starts_value_join:
  "xs \<noteq> [] \<Longrightarrow> (\<And>x. x \<in> set xs \<Longrightarrow> starts_value (S x)) \<Longrightarrow> starts_value (join sep (map S xs) @ t)"
proof (cases xs)
  case (Cons x ys)
  assume "\<And>x. x \<in> set xs \<Longrightarrow> starts_value (S x)"
  with Cons have "starts_value (S x)" by simp
  with Cons show ?thesis by (cases ys) (simp_all add: starts_value_append)
qed simp

lemma parse_elements_join:
  assumes IH: "\<And>x f r. x \<in> set xs \<Longrightarrow> length (S x) < f \<Longrightarrow> follow_ok r \<Longrightarrow> parse_value f (S x @ r) = Some (x, r)"
    and st: "\<And>x. x \<in> set xs \<Longrightarrow> starts_value (S x)"
    and ws: "list_all is_ws w" "list_all is_ws w'"
    and ne: "xs \<noteq> []"
    and fuel: "length (join (CHR '','' # w) (map S xs) @ w' @ '']'') < f"
  shows "parse_elements f acc (join (CHR '','' # w) (map S xs) @ w' @ CHR '']'' # r) = Some (JArr (acc @ xs), r)"
  using IH st ne fuel
proof (induction xs arbitrary: f acc)
  case Nil
  then show ?case by simp
next
  case (Cons x ys)
  from Cons.prems(4) obtain f' where f: "f = Suc f'" by (cases f) auto
  show ?case
  proof (cases ys)
    case Nil
    from Cons.prems(4) f Nil have lx: "length (S x) < f'" by simp
    have fo: "follow_ok (w' @ CHR '']'' # r)"
      by (intro follow_ok_ws ws follow_ok_punct)
    have pv: "parse_value f' (S x @ w' @ CHR '']'' # r) = Some (x, w' @ CHR '']'' # r)"
      using Cons.prems(1) [of x f' "w' @ CHR '']'' # r"] lx fo by simp
    have sk: "skip_ws (w' @ CHR '']'' # r) = CHR '']'' # r"
      by (simp add: skip_ws_ws ws skip_ws_stop is_ws_def)
    show ?thesis by (simp add: f Nil pv sk)
  next
    case (Cons y zs)
    let ?rest = "join (CHR '','' # w) (map S (y # zs)) @ w' @ CHR '']'' # r"
    from Cons.prems(4) f Cons have lx: "length (S x) < f'" by simp
    have fo: "follow_ok (CHR '','' # w @ ?rest)" by (rule follow_ok_punct)
    have pv: "parse_value f' (S x @ CHR '','' # w @ ?rest) = Some (x, CHR '','' # w @ ?rest)"
      using Cons.prems(1) [of x f' "CHR '','' # w @ ?rest"] lx fo by simp
    have sk1: "skip_ws (CHR '','' # w @ ?rest) = CHR '','' # w @ ?rest"
      by (simp add: skip_ws_stop is_ws_def)
    have "starts_value ?rest"
      using Cons.prems(2) Cons by (intro starts_value_join) simp_all
    then have sk2: "skip_ws (w @ ?rest) = ?rest"
      by (rule skip_ws_starts [OF ws(1)])
    from Cons.prems(4) f Cons have lr: "length (join (CHR '','' # w) (map S ys) @ w' @ '']'') < f'"
      by simp
    have rec: "parse_elements f' (acc @ [x]) ?rest = Some (JArr ((acc @ [x]) @ ys), r)"
      unfolding Cons [symmetric]
      using Cons.prems(1,2) Cons lr by (intro Cons.IH) simp_all
    show ?thesis
      using pv sk1 sk2 rec by (simp add: f Cons)
  qed
qed

lemma obj_put_fresh:
  "\<not> is_array_index k \<Longrightarrow> k \<notin> fst ` set acc \<Longrightarrow> obj_put k v acc = Some (acc @ [(k, v)])"
  by (simp add: obj_put_def)

lemma parse_members_step:
  assumes "parse_chars cs = Some (k, CHR '':'' # t)"
    and "parse_value f (skip_ws t) = Some (v, r1)"
    and "obj_put k v acc = Some acc1"
    and "skip_ws r1 = c1 # cs2"
  shows "parse_members (Suc f) acc (CHR 0x22 # cs) =
    (if c1 = CHR '','' then parse_members f acc1 (skip_ws cs2)
     else if c1 = CHR ''}'' then Some (JObj acc1, cs2) else None)"
  using assms by (simp add: skip_ws_stop is_ws_def)

lemma starts_value_quote: "starts_value (quote k @ t)"
  by (simp add: quote_def starts_value_def is_ws_def)

lemma starts_value_join_members:
  "kvs \<noteq> [] \<Longrightarrow> starts_value (join sep (map (\<lambda>(k, v). quote k @ M k v) kvs) @ t)"
proof (cases kvs)
  case (Cons kv ys)
  obtain k v where "kv = (k, v)" by (cases kv)
  with Cons show ?thesis
    by (cases ys) (simp_all add: starts_value_quote starts_value_append)
qed simp

lemma parse_members_join:
  assumes IH: "\<And>k v f r. (k, v) \<in> set kvs \<Longrightarrow> length (S v) < f \<Longrightarrow> follow_ok r \<Longrightarrow>
      parse_value f (S v @ r) = Some (v, r)"
    and st: "\<And>v. starts_value (S v)"
    and ws: "list_all is_ws w" "list_all is_ws w'" "list_all is_ws sp"
    and ne: "kvs \<noteq> []"
    and dist: "distinct (map fst kvs)" "fst ` set acc \<inter> fst ` set kvs = {}"
    and idx: "\<And>k v. (k, v) \<in> set kvs \<Longrightarrow> \<not> is_array_index k"
    and fuel: "length (join (CHR '','' # w) (map (\<lambda>(k, v). quote k @ CHR '':'' # sp @ S v) kvs) @ w' @ ''}'') < f"
  shows "parse_members f acc
      (join (CHR '','' # w) (map (\<lambda>(k, v). quote k @ CHR '':'' # sp @ S v) kvs) @ w' @ CHR ''}'' # r)
    = Some (JObj (acc @ kvs), r)"
  using IH ne dist idx fuel
proof (induction kvs arbitrary: f acc)
  case Nil
  then show ?case by simp
next
  case (Cons kv ys)
  obtain k v where kv: "kv = (k, v)" by (cases kv)
  from Cons.prems(6) obtain f' where f: "f = Suc f'" by (cases f) auto
  have fresh: "obj_put k v acc = Some (acc @ [(k, v)])"
    using Cons.prems(4) Cons.prems(5) [of k v] kv by (intro obj_put_fresh) auto
  have pv: "parse_value f' (S v @ t) = Some (v, t)" if "length (S v) < f'" "follow_ok t" for t
    using Cons.prems(1) [of k v f' t] kv that by simp
  have sv: "skip_ws (sp @ S v @ t) = S v @ t" for t
    by (intro skip_ws_starts ws starts_value_append st)
  note prems = Cons.prems and IH = Cons.IH
  show ?case
  proof (cases ys)
    case Nil
    let ?t = "w' @ CHR ''}'' # r"
    from Cons.prems(6) f Nil kv have lv: "length (S v) < f'" by simp
    have fo: "follow_ok ?t" by (intro follow_ok_ws ws follow_ok_punct)
    have pc: "parse_chars (concat (map quote_char k) @ CHR 0x22 # CHR '':'' # sp @ S v @ ?t)
        = Some (k, CHR '':'' # sp @ S v @ ?t)"
      by (rule parse_chars_quoted)
    have sk: "skip_ws ?t = CHR ''}'' # r"
      by (simp add: skip_ws_ws ws skip_ws_stop is_ws_def)
    have "parse_members (Suc f') acc (CHR 0x22 # concat (map quote_char k) @ CHR 0x22 # CHR '':'' # sp @ S v @ ?t)
        = Some (JObj (acc @ [(k, v)]), r)"
      using parse_members_step [OF pc _ fresh sk, of f'] pv [OF lv fo] sv [of ?t] by simp
    then show ?thesis by (simp add: f Nil kv quote_def del: parse_members.simps)
  next
    case (Cons kv2 zs)
    let ?rest = "join (CHR '','' # w) (map (\<lambda>(k, v). quote k @ CHR '':'' # sp @ S v) (kv2 # zs)) @ w' @ CHR ''}'' # r"
    let ?t = "CHR '','' # w @ ?rest"
    from Cons.prems(6) f Cons kv have lv: "length (S v) < f'" by simp
    have fo: "follow_ok ?t" by (rule follow_ok_punct)
    have pc: "parse_chars (concat (map quote_char k) @ CHR 0x22 # CHR '':'' # sp @ S v @ ?t)
        = Some (k, CHR '':'' # sp @ S v @ ?t)"
      by (rule parse_chars_quoted)
    have sk: "skip_ws ?t = CHR '','' # w @ ?rest"
      by (simp add: skip_ws_stop is_ws_def)
    have "starts_value ?rest"
      by (intro starts_value_join_members) simp
    then have sk2: "skip_ws (w @ ?rest) = ?rest"
      by (rule skip_ws_starts [OF ws(1)])
    from Cons.prems(6) f Cons kv
    have lr: "length (join (CHR '','' # w) (map (\<lambda>(k, v). quote k @ CHR '':'' # sp @ S v) ys) @ w' @ ''}'') < f'"
      by simp
    have d1: "distinct (map fst ys)" using Cons.prems(3) by simp
    have d2: "fst ` set (acc @ [(k, v)]) \<inter> fst ` set ys = {}"
      using Cons.prems(3,4) kv by auto
    have a: "\<And>k v f r. (k, v) \<in> set ys \<Longrightarrow> length (S v) < f \<Longrightarrow> follow_ok r \<Longrightarrow>
        parse_value f (S v @ r) = Some (v, r)"
      using prems(1) by (meson list.set_intros(2))
    have b: "\<And>k v. (k, v) \<in> set ys \<Longrightarrow> \<not> is_array_index k"
      using prems(5) by (meson list.set_intros(2))
    have n: "ys \<noteq> []" using Cons by simp
    have rec: "parse_members f' (acc @ [(k, v)]) ?rest = Some (JObj ((acc @ [(k, v)]) @ ys), r)"
      unfolding Cons [symmetric] by (rule IH [OF a n d1 d2 b lr])
    have "parse_members (Suc f') acc (CHR 0x22 # concat (map quote_char k) @ CHR 0x22 # CHR '':'' # sp @ S v @ ?t)
        = Some (JObj (acc @ kv # ys), r)"
      using parse_members_step [OF pc _ fresh sk, of f'] pv [OF lv fo] sv [of ?t] sk2 rec kv by simp
    then show ?thesis by (simp add: f Cons kv quote_def del: parse_members.simps)
  qed
qed

lemma ser_array:
  "xs \<noteq> [] \<Longrightarrow> ser gap ind (JArr xs) =
     CHR ''['' # (if gap = [] then [] else CHR 0x0A # ind @ gap)
       @ join (CHR '','' # (if gap = [] then [] else CHR 0x0A # ind @ gap)) (map (ser gap (ind @ gap)) xs)
       @ (if gap = [] then [] else CHR 0x0A # ind) @ '']''"
  by simp

lemma ser_object:
  "kvs \<noteq> [] \<Longrightarrow> ser gap ind (JObj kvs) =
     CHR ''{'' # (if gap = [] then [] else CHR 0x0A # ind @ gap)
       @ join (CHR '','' # (if gap = [] then [] else CHR 0x0A # ind @ gap))
           (map (\<lambda>(k, v). quote k @ CHR '':'' # (if gap = [] then [] else '' '') @ ser gap (ind @ gap) v) kvs)
       @ (if gap = [] then [] else CHR 0x0A # ind) @ ''}''"
  by simp

lemma parse_value_array_empty: "parse_value (Suc f) (''[]'' @ r) = Some (JArr [], r)"
  by (simp add: skip_ws_stop is_ws_def)

lemma parse_value_object_empty: "parse_value (Suc f) (''{}'' @ r) = Some (JObj [], r)"
  by (simp add: skip_ws_stop is_ws_def)

lemma parse_value_array_elements:
  assumes "list_all is_ws w" and "starts_value s"
  shows "parse_value (Suc f) (CHR ''['' # w @ s) = parse_elements f [] s"
proof -
  from assms(2) obtain d ds where s: "s = d # ds" and d: "d \<noteq> CHR '']''"
    by (cases s) (auto simp: starts_value_def)
  have "skip_ws (w @ s) = d # ds"
    using skip_ws_starts [OF assms] s by simp
  with d show ?thesis
    unfolding parse_value_array s by simp
qed

lemma parse_value_object_members:
  assumes "list_all is_ws w" and "starts_value s"
  shows "parse_value (Suc f) (CHR ''{'' # w @ s) = parse_members f [] s"
proof -
  from assms(2) obtain d ds where s: "s = d # ds" and d: "d \<noteq> CHR ''}''"
    by (cases s) (auto simp: starts_value_def)
  have "skip_ws (w @ s) = d # ds"
    using skip_ws_starts [OF assms] s by simp
  with d show ?thesis
    unfolding parse_value_object s by simp
qed

lemma is_ws_simps: "is_ws (CHR 0x0A)" "is_ws (CHR '' '')"
  by (simp_all add: is_ws_def)

lemma parse_value_ser:
  assumes gap: "list_all is_ws gap"
  shows "json_ok v \<Longrightarrow> list_all is_ws ind \<Longrightarrow> length (ser gap ind v) < f \<Longrightarrow> follow_ok r \<Longrightarrow>
    parse_value f (ser gap ind v @ r) = Some (v, r)"
proof (induction v arbitrary: ind f r)
  case JNull
  then obtain f' where "f = Suc f'" by (cases f) auto
  then show ?case using parse_value_null [of f' r] by simp
next
  case (JBool b)
  then obtain f' where "f = Suc f'" by (cases f) auto
  then show ?case using parse_value_true [of f' r] parse_value_false [of f' r] by (cases b) simp_all
next
  case (JNum n)
  then obtain f' where f: "f = Suc f'" by (cases f) auto
  obtain c cs where sh: "show_int n = c # cs" and c: "c = CHR ''-'' \<or> is_digit c"
    using show_int_first [of n] by blast
  have "parse_value (Suc f') (c # cs @ r) = parse_number (c # cs @ r)"
    by (rule parse_value_number [OF c])
  also have "\<dots> = parse_number (show_int n @ r)" by (simp add: sh)
  also have "\<dots> = Some (JNum n, r)"
    using JNum.prems by (intro parse_number_show_int) simp_all
  finally show ?case by (simp add: f sh)
next
  case (JStr s)
  then obtain f' where f: "f = Suc f'" by (cases f) auto
  show ?case
    unfolding f by (simp add: quote_def parse_value_string parse_chars_quoted del: parse_value.simps)
next
  case (JArr xs)
  from JArr.prems(3) obtain f' where f: "f = Suc f'" by (cases f) auto
  show ?case
  proof (cases "xs = []")
    case True
    then show ?thesis using parse_value_array_empty [of f' r] by (simp add: f)
  next
    case False
    let ?w = "if gap = [] then [] else CHR 0x0A # ind @ gap"
    let ?w' = "if gap = [] then [] else CHR 0x0A # ind"
    let ?S = "ser gap (ind @ gap)"
    let ?body = "join (CHR '','' # ?w) (map ?S xs)"
    have w: "list_all is_ws ?w" "list_all is_ws ?w'"
      using gap JArr.prems(2) by (simp_all add: is_ws_simps)
    have ig: "list_all is_ws (ind @ gap)" using gap JArr.prems(2) by simp
    have IH: "\<And>x f r. x \<in> set xs \<Longrightarrow> length (?S x) < f \<Longrightarrow> follow_ok r \<Longrightarrow>
        parse_value f (?S x @ r) = Some (x, r)"
      using JArr.IH JArr.prems(1) ig by (simp add: list_all_iff)
    have len: "length (?body @ ?w' @ '']'') < f'"
      using JArr.prems(3) unfolding ser_array [OF False] f by simp
    have el: "parse_elements f' [] (?body @ ?w' @ CHR '']'' # r) = Some (JArr ([] @ xs), r)"
      by (rule parse_elements_join [OF IH starts_value_ser w False len])
    have sb: "starts_value (?body @ ?w' @ CHR '']'' # r)"
      using False by (intro starts_value_join starts_value_ser)
    have "parse_value (Suc f') (CHR ''['' # ?w @ ?body @ ?w' @ CHR '']'' # r) = Some (JArr xs, r)"
      unfolding parse_value_array_elements [OF w(1) sb] using el by simp
    then show ?thesis
      unfolding f ser_array [OF False] by simp
  qed
next
  case (JObj kvs)
  from JObj.prems(3) obtain f' where f: "f = Suc f'" by (cases f) auto
  show ?case
  proof (cases "kvs = []")
    case True
    then show ?thesis using parse_value_object_empty [of f' r] by (simp add: f)
  next
    case False
    let ?w = "if gap = [] then [] else CHR 0x0A # ind @ gap"
    let ?w' = "if gap = [] then [] else CHR 0x0A # ind"
    let ?sp = "if gap = [] then [] else '' ''"
    let ?S = "ser gap (ind @ gap)"
    let ?body = "join (CHR '','' # ?w) (map (\<lambda>(k, v). quote k @ CHR '':'' # ?sp @ ?S v) kvs)"
    have w: "list_all is_ws ?w" "list_all is_ws ?w'" "list_all is_ws ?sp"
      using gap JObj.prems(2) by (simp_all add: is_ws_simps)
    have ig: "list_all is_ws (ind @ gap)" using gap JObj.prems(2) by simp
    have ok: "\<And>k v. (k, v) \<in> set kvs \<Longrightarrow> json_ok v \<and> \<not> is_array_index k"
      using JObj.prems(1) by (auto simp: list_all_iff)
    have IH: "\<And>k v f r. (k, v) \<in> set kvs \<Longrightarrow> length (?S v) < f \<Longrightarrow> follow_ok r \<Longrightarrow>
        parse_value f (?S v @ r) = Some (v, r)"
    proof -
      fix k v f r
      assume m: "(k, v) \<in> set kvs" and l: "length (?S v) < f" and fo: "follow_ok r"
      have "v \<in> Basic_BNFs.snds (k, v)" by simp
      from JObj.IH [OF m this _ ig l fo] ok [OF m]
      show "parse_value f (?S v @ r) = Some (v, r)" by simp
    qed
    have dist: "distinct (map fst kvs)" using JObj.prems(1) by simp
    have idx: "\<And>k v. (k, v) \<in> set kvs \<Longrightarrow> \<not> is_array_index k" using ok by blast
    have len: "length (?body @ ?w' @ ''}'') < f'"
      using JObj.prems(3) unfolding ser_object [OF False] f by simp
    have em: "fst ` set [] \<inter> fst ` set kvs = {}" by simp
    have el: "parse_members f' [] (?body @ ?w' @ CHR ''}'' # r) = Some (JObj ([] @ kvs), r)"
      by (rule parse_members_join [OF IH starts_value_ser w False dist em idx len])
    have sb: "starts_value (?body @ ?w' @ CHR ''}'' # r)"
      using False by (intro starts_value_join_members)
    have "parse_value (Suc f') (CHR ''{'' # ?w @ ?body @ ?w' @ CHR ''}'' # r) = Some (JObj kvs, r)"
      unfolding parse_value_object_members [OF w(1) sb] using el by simp
    then show ?thesis
      unfolding f ser_object [OF False] by simp
  qed
qed

lemma JSON_parse_stringify:
  assumes "json_ok v"
  shows "JSON_parse (JSON_stringify_indent n v) = Some v" and "JSON_parse (JSON_stringify v) = Some v"
proof -
  have a: "JSON_parse (ser gap [] v) = Some v" if "list_all is_ws gap" for gap
  proof -
    have sk: "skip_ws (ser gap [] v) = ser gap [] v"
      using skip_ws_starts [of "[]" "ser gap [] v"] starts_value_ser [of gap "[]" v] by simp
    have "parse_value (Suc (length (ser gap [] v))) (ser gap [] v @ []) = Some (v, [])"
      using assms that by (intro parse_value_ser) (simp_all add: follow_ok_def)
    moreover have "skip_ws [] = []" by (simp add: skip_ws_def)
    ultimately show ?thesis by (simp add: JSON_parse_def sk del: parse_value.simps)
  qed
  show "JSON_parse (JSON_stringify_indent n v) = Some v"
    unfolding JSON_stringify_indent_def by (rule a) (simp add: list_all_iff is_ws_def)
  show "JSON_parse (JSON_stringify v) = Some v"
    unfolding JSON_stringify_def by (rule a) simp
qed

section \<open>Further error responses\<close>

text \<open>
  X2. A response that is not ok and has no body at all: \<^verbatim>\<open>res.json()\<close> fails on the empty text,
  \<^verbatim>\<open>res.text()\<close> gives the empty string, and the error shown is \<^verbatim>\<open>HTTP\<close> with the status.
\<close>

theorem bodiless_error_status:
  assumes "\<not> ok r" and "\<not> has_body r"
  shows "error (handleSubmit_resume pf (Responded r) st) = Some (''HTTP '' @ show_nat (status r))"
  using assms
  by (simp add: handleSubmit_resume_def try_block_def error_message_def res_json_def json_of_def
      text_fallback_def res_text_def)

lemma show_nat_304: "show_nat 304 = ''304''"
  by (simp add: show_nat.simps [of 304] show_nat.simps [of 30] show_nat.simps [of 3] digit_char_def)

theorem bodiless_error_status_witness:
  "\<not> ok \<lparr>status = 304, has_body = False, body_text = [], body_json = Inl (JsError [])\<rparr>
   \<and> error (handleSubmit_resume example_platform
        (Responded \<lparr>status = 304, has_body = False, body_text = [], body_json = Inl (JsError [])\<rparr>)
        example_state) = Some ''HTTP 304''"
  using bodiless_error_status
    [of "\<lparr>status = 304, has_body = False, body_text = [], body_json = Inl (JsError [])\<rparr>"
        example_platform example_state]
  by (simp add: ok_def show_nat_304)

text \<open>
  X3. A response that is not ok and has a body that does not parse: whatever the body's text,
  the error shown is the message of the TypeError that the second read of the body throws.
\<close>

theorem unparsable_error_body_general:
  assumes "\<not> ok r" and "has_body r" and "body_json r = Inl e"
  shows "error (handleSubmit_resume pf (Responded r) st)
    = Some (if body_used_message pf \<noteq> [] then body_used_message pf else ''Unknown error'')"
  using assms
  by (simp add: handleSubmit_resume_def try_block_def error_message_def res_json_def json_of_def
      text_fallback_def res_text_def)

theorem unparsable_error_body_general_witness:
  "\<not> ok \<lparr>status = 502, has_body = True, body_text = ''Bad Gateway'', body_json = Inl (JsError ''Unexpected token B'')\<rparr>
   \<and> error (handleSubmit_resume example_platform
        (Responded \<lparr>status = 502, has_body = True, body_text = ''Bad Gateway'',
                     body_json = Inl (JsError ''Unexpected token B'')\<rparr>)
        example_state) = Some ''Body has already been consumed.''"
  using unparsable_error_body_general
    [of "\<lparr>status = 502, has_body = True, body_text = ''Bad Gateway'',
          body_json = Inl (JsError ''Unexpected token B'')\<rparr>" "JsError ''Unexpected token B''"
        example_platform example_state]
  by (simp add: ok_def example_platform_def)

lemma ser_nonempty: "ser gap ind v \<noteq> []"
  using starts_value_ser [of gap ind v] by (auto simp: starts_value_def)

text \<open>
  X4. A response that is not ok and whose body parses to an object without a property
  \<^verbatim>\<open>error\<close>: the error shown is the object's compact JSON text.
\<close>

theorem error_body_without_message:
  assumes "\<not> ok r" and "has_body r" and "body_json r = Inr (JObj kvs)"
    and "map_of kvs ''error'' = None"
  shows "error (handleSubmit_resume pf (Responded r) st) = Some (JSON_stringify (JObj kvs))"
  using assms ser_nonempty [of "[]" "[]" "JObj kvs"]
  by (simp add: handleSubmit_resume_def try_block_def error_message_def res_json_def json_of_def
      JSON_stringify_def del: ser.simps)

theorem error_body_without_message_witness:
  "\<not> ok \<lparr>status = 400, has_body = True, body_text = ''{\"code\":7}'', body_json = Inr (JObj [(''code'', JNum 7)])\<rparr>
   \<and> error (handleSubmit_resume example_platform
        (Responded \<lparr>status = 400, has_body = True, body_text = ''{\"code\":7}'',
                     body_json = Inr (JObj [(''code'', JNum 7)])\<rparr>)
        example_state) = Some ''{\"code\":7}''"
  using error_body_without_message
    [of "\<lparr>status = 400, has_body = True, body_text = ''{\"code\":7}'',
          body_json = Inr (JObj [(''code'', JNum 7)])\<rparr>" "[(''code'', JNum 7)]"
        example_platform example_state]
  by (simp add: ok_def JSON_stringify_def show_int_def show_nat.simps [of 7] digit_char_def
      quote_def quote_char_def)

section \<open>The request in flight\<close>

lemma step_keeps_loading:
  assumes "loading (page u)" and "\<not> is_settle e"
  shows "loading (page (step pf u e)) \<and> in_flight (step pf u e) = in_flight u
    \<and> result (page (step pf u e)) = result (page u) \<and> error (page (step pf u e)) = error (page u)"
  using assms by (cases e) (simp_all add: handleFileChange_def setTicker_def submit_disabled_def)

lemma run_keeps_loading:
  assumes "loading (page u)" and "\<forall>e\<in>set evs. \<not> is_settle e"
  shows "loading (page (run pf u evs)) \<and> in_flight (run pf u evs) = in_flight u
    \<and> result (page (run pf u evs)) = result (page u) \<and> error (page (run pf u evs)) = error (page u)"
  using assms
proof (induction evs arbitrary: u)
  case Nil
  then show ?case by (simp add: run_def)
next
  case (Cons e evs)
  from Cons.prems have s: "loading (page (step pf u e)) \<and> in_flight (step pf u e) = in_flight u
    \<and> result (page (step pf u e)) = result (page u) \<and> error (page (step pf u e)) = error (page u)"
    by (intro step_keeps_loading) simp_all
  from Cons.prems have "\<forall>e\<in>set evs. \<not> is_settle e" by simp
  with s Cons.IH [of "step pf u e"] show ?case
    by (simp add: run_def)
qed

text \<open>
  C7. A click on the enabled submit button with at least one file selected issues the request
  with the loading flag set, so the button is disabled. Whatever events follow before the
  request settles (clicks on the disabled button among them), the flag stays set and the
  button disabled. When the request settles, however it does, the flag is cleared and the
  button enabled again; so every run of \<^verbatim>\<open>handleSubmit\<close> that issues a request ends with the flag
  cleared.
\<close>

theorem submission_settles:
  assumes "files (page u) = Some fs" and "fs \<noteq> []" and "\<not> submit_disabled (page u)"
    and "\<forall>e\<in>set evs. \<not> is_settle e"
  shows "let u1 = step pf u SubmitClicked;
             u2 = run pf u1 evs;
             u3 = step pf u2 (FetchSettled oc)
         in in_flight u1 \<noteq> None \<and> loading (page u1) \<and> submit_disabled (page u1)
            \<and> loading (page u2) \<and> submit_disabled (page u2) \<and> in_flight u2 = in_flight u1
            \<and> \<not> loading (page u3) \<and> \<not> submit_disabled (page u3) \<and> in_flight u3 = None
            \<and> \<not> loading (fst (handleSubmit pf net (page u)))"
proof -
  define u1 where "u1 = step pf u SubmitClicked"
  define u2 where "u2 = run pf u1 evs"
  define u3 where "u3 = step pf u2 (FetchSettled oc)"
  from assms(1-3) have b: "in_flight u1 \<noteq> None \<and> loading (page u1)"
    by (simp add: u1_def handleSubmit_begin_files)
  with assms(4) have k: "loading (page u2) \<and> in_flight u2 = in_flight u1"
    unfolding u2_def using run_keeps_loading [of u1 evs pf] by simp
  with b have e: "\<not> loading (page u3) \<and> in_flight u3 = None"
    by (auto simp: u3_def loading_handleSubmit_resume)
  from assms(1,2) have w: "\<not> loading (fst (handleSubmit pf net (page u)))"
    by (simp add: handleSubmit_def handleSubmit_begin_files loading_handleSubmit_resume)
  from b k e w show ?thesis
    unfolding Let_def submit_disabled_def u1_def u2_def u3_def by blast
qed

theorem submission_settles_witness:
  "files (page (initial_ui\<lparr>page := example_state\<rparr>)) = Some example_files \<and> example_files \<noteq> []
   \<and> \<not> submit_disabled (page (initial_ui\<lparr>page := example_state\<rparr>))
   \<and> submit_disabled (page (run example_platform
          (step example_platform (initial_ui\<lparr>page := example_state\<rparr>) SubmitClicked)
          [FilesPicked None, SubmitClicked, CompanySelected VOLV_B]))
   \<and> \<not> submit_disabled (page (step example_platform
          (run example_platform
             (step example_platform (initial_ui\<lparr>page := example_state\<rparr>) SubmitClicked)
             [FilesPicked None, SubmitClicked, CompanySelected VOLV_B])
          (FetchSettled (Rejected (JsError ''Failed to fetch'')))))"
  using submission_settles [of "initial_ui\<lparr>page := example_state\<rparr>" example_files
      "[FilesPicked None, SubmitClicked, CompanySelected VOLV_B]" example_platform
      "Rejected (JsError ''Failed to fetch'')" "\<lambda>rq. Rejected (JsError ''Failed to fetch'')"]
  by (simp add: initial_ui_def example_state_def example_files_def initial_def submit_disabled_def
      Let_def run_def handleSubmit_begin_def handleFileChange_def setTicker_def
      handleSubmit_resume_def try_block_def)

section \<open>Results\<close>

text \<open>
  C10. For an ok response to a submission with files, whatever value the body parses to is
  stored as the result, with the error cleared, the loading flag cleared and nothing about
  the value's shape checked: an empty object and an object that only has an \<^verbatim>\<open>error\<close> property
  are stored like any other value. Only when the body does not parse is the error set
  instead, and the result stays \<^verbatim>\<open>null\<close>.
\<close>

theorem ok_body_unvalidated:
  assumes "files st = Some fs" and "fs \<noteq> []" and "ok r"
  shows "(has_body r \<and> body_json r = Inr v \<longrightarrow>
            fst (handleSubmit pf (\<lambda>rq. Responded r) st)
              = st\<lparr>loading := False, error := None, result := v\<rparr>)
       \<and> (json_of pf r = Inl e \<longrightarrow>
            fst (handleSubmit pf (\<lambda>rq. Responded r) st)
              = st\<lparr>loading := False, result := JNull,
                   error := Some (if message e \<noteq> [] then message e else ''Unknown error'')\<rparr>)"
  using assms(3)
  by (simp add: handleSubmit_def handleSubmit_begin_files [OF assms(1,2)] handleSubmit_resume_def
      try_block_def res_json_def json_of_def)

theorem ok_body_unvalidated_witness:
  "files example_state = Some example_files \<and> example_files \<noteq> []
   \<and> ok \<lparr>status = 200, has_body = True, body_text = ''{}'', body_json = Inr (JObj [])\<rparr>
   \<and> fst (handleSubmit example_platform
        (\<lambda>rq. Responded \<lparr>status = 200, has_body = True, body_text = ''{}'', body_json = Inr (JObj [])\<rparr>)
        example_state)
       = example_state\<lparr>loading := False, error := None, result := JObj []\<rparr>
   \<and> ok \<lparr>status = 200, has_body = True, body_text = ''{\"error\":\"boom\"}'',
          body_json = Inr (JObj [(''error'', JStr ''boom'')])\<rparr>
   \<and> fst (handleSubmit example_platform
        (\<lambda>rq. Responded \<lparr>status = 200, has_body = True, body_text = ''{\"error\":\"boom\"}'',
                          body_json = Inr (JObj [(''error'', JStr ''boom'')])\<rparr>)
        example_state)
       = example_state\<lparr>loading := False, error := None,
           result := JObj [(''error'', JStr ''boom'')]\<rparr>
   \<and> ok \<lparr>status = 200, has_body = True, body_text = ''<html>'',
          body_json = Inl (JsError ''Unexpected token < in JSON at position 0'')\<rparr>
   \<and> fst (handleSubmit example_platform
        (\<lambda>rq. Responded \<lparr>status = 200, has_body = True, body_text = ''<html>'',
                          body_json = Inl (JsError ''Unexpected token < in JSON at position 0'')\<rparr>)
        example_state)
       = example_state\<lparr>loading := False, result := JNull,
           error := Some ''Unexpected token < in JSON at position 0''\<rparr>"
  using ok_body_unvalidated [of example_state example_files
      "\<lparr>status = 200, has_body = True, body_text = ''{}'', body_json = Inr (JObj [])\<rparr>"
      "JObj []" example_platform]
    ok_body_unvalidated [of example_state example_files
      "\<lparr>status = 200, has_body = True, body_text = ''{\"error\":\"boom\"}'',
        body_json = Inr (JObj [(''error'', JStr ''boom'')])\<rparr>"
      "JObj [(''error'', JStr ''boom'')]" example_platform]
    ok_body_unvalidated [of example_state example_files
      "\<lparr>status = 200, has_body = True, body_text = ''<html>'',
        body_json = Inl (JsError ''Unexpected token < in JSON at position 0'')\<rparr>"
      _ example_platform "JsError ''Unexpected token < in JSON at position 0''"]
  by (simp add: example_state_def example_files_def initial_def ok_def json_of_def)

text \<open>
  C1. A file is picked and submitted, and the response brings a result, which is shown. The
  file input is then emptied and the form submitted again: the validation error is set, and
  the result is still there. Both are non-null in the final state.
\<close>

theorem validation_error_keeps_result:
  "page (run pf initial_ui
       [FilesPicked (Some [File ''report.pdf'' [37, 80, 68, 70]]), SubmitClicked,
        FetchSettled (Responded example_ok), FilesPicked (Some []), SubmitClicked])
    = \<lparr>files = Some [], ticker = VOLV_B, loading = False,
       result = analysis_json example_result,
       error = Some ''Please select at least one PDF file.''\<rparr>
   \<and> analysis_json example_result \<noteq> JNull"
  by (simp add: run_def initial_ui_def initial_def handleFileChange_def submit_disabled_def
      handleSubmit_begin_def handleSubmit_resume_def try_block_def example_ok_def ok_def res_json_def
      json_of_def validation_message_def analysis_json_def)

lemma handleSubmit_resume_exclusive:
  assumes "result st = JNull" and "error st = None"
  shows "result (handleSubmit_resume pf oc st) = JNull \<or> error (handleSubmit_resume pf oc st) = None"
  using assms by (simp add: handleSubmit_resume_def split: sum.split)

lemma step_exclusive_inv:
  assumes "exclusive_inv u"
  shows "exclusive_inv (step pf u e)"
proof (cases e)
  case (FilesPicked fs)
  with assms show ?thesis by (simp add: exclusive_inv_def handleFileChange_def)
next
  case (CompanySelected t)
  with assms show ?thesis by (simp add: exclusive_inv_def setTicker_def)
next
  case SubmitClicked
  show ?thesis
  proof (cases "submit_disabled (page u)")
    case True
    with assms SubmitClicked show ?thesis by simp
  next
    case False
    with assms have nf: "in_flight u = None"
      by (auto simp: exclusive_inv_def submit_disabled_def)
    show ?thesis
    proof (cases "files (page u) = None \<or> files (page u) = Some []")
      case True
      with assms False nf SubmitClicked show ?thesis
        by (simp add: handleSubmit_begin_no_files exclusive_inv_def submit_disabled_def)
    next
      case nonempty: False
      then obtain fs where "files (page u) = Some fs" "fs \<noteq> []" by auto
      with False SubmitClicked show ?thesis
        by (simp add: handleSubmit_begin_files exclusive_inv_def)
    qed
  qed
next
  case (FetchSettled oc)
  show ?thesis
  proof (cases "in_flight u")
    case None
    with assms FetchSettled show ?thesis by simp
  next
    case (Some rq)
    with assms have "result (page u) = JNull" "error (page u) = None"
      by (simp_all add: exclusive_inv_def)
    from handleSubmit_resume_exclusive [OF this, of pf oc] Some FetchSettled show ?thesis
      by (auto simp: exclusive_inv_def loading_handleSubmit_resume)
  qed
qed

lemma run_exclusive_inv: "exclusive_inv u \<Longrightarrow> exclusive_inv (run pf u evs)"
proof (induction evs arbitrary: u)
  case Nil
  then show ?case by (simp add: run_def)
next
  case (Cons e evs)
  from Cons.IH [OF step_exclusive_inv [OF Cons.prems, of pf e]] show ?case
    by (simp add: run_def)
qed

text \<open>
  X1. In every state that the page reaches from its initial state, a request is in flight
  exactly when the loading flag is set, and the error and the result are non-null together
  only when the error is the validation message for an empty selection.
\<close>

theorem exclusive_but_validation:
  "(in_flight (run pf initial_ui evs) \<noteq> None \<longleftrightarrow> loading (page (run pf initial_ui evs)))
   \<and> (error (page (run pf initial_ui evs)) \<noteq> None \<and> result (page (run pf initial_ui evs)) \<noteq> JNull
        \<longrightarrow> error (page (run pf initial_ui evs)) = Some ''Please select at least one PDF file.'')"
proof -
  have "exclusive_inv initial_ui"
    by (simp add: exclusive_inv_def initial_ui_def initial_def)
  from run_exclusive_inv [OF this, of pf evs] show ?thesis
    by (auto simp: exclusive_inv_def validation_message_def)
qed

theorem exclusive_but_validation_witness:
  "error (page (run example_platform initial_ui
       [FilesPicked (Some example_files), SubmitClicked,
        FetchSettled (Responded \<lparr>status = 503, has_body = True, body_text = ''{\"error\":\"busy\"}'',
                                  body_json = Inr (JObj [(''error'', JStr ''busy'')])\<rparr>)])) = Some ''busy''
   \<and> result (page (run example_platform initial_ui
       [FilesPicked (Some example_files), SubmitClicked,
        FetchSettled (Responded \<lparr>status = 503, has_body = True, body_text = ''{\"error\":\"busy\"}'',
                                  body_json = Inr (JObj [(''error'', JStr ''busy'')])\<rparr>)])) = JNull"
  using exclusive_but_validation [of example_platform
       "[FilesPicked (Some example_files), SubmitClicked,
        FetchSettled (Responded \<lparr>status = 503, has_body = True, body_text = ''{\"error\":\"busy\"}'',
                                  body_json = Inr (JObj [(''error'', JStr ''busy'')])\<rparr>)]"]
  by (simp add: run_def initial_ui_def initial_def handleFileChange_def submit_disabled_def
      example_files_def handleSubmit_begin_def handleSubmit_resume_def try_block_def ok_def
      error_message_def res_json_def json_of_def)

section \<open>Export\<close>

lemma not_index_letter: "\<not> is_digit c \<Longrightarrow> \<not> is_array_index (c # cs)"
  by (simp add: is_array_index_def)

lemma json_ok_strings: "list_all json_ok (map JStr xs)"
  by (induction xs) simp_all

lemma json_ok_analysis_json:
  assumes "\<bar>trustScore r\<bar> \<le> 9007199254740991" and "\<bar>growthScore r\<bar> \<le> 9007199254740991"
  shows "json_ok (analysis_json r)"
  using assms by (simp add: analysis_json_def json_ok_strings not_index_letter is_digit_def)

lemma is_string_array_strings: "is_string_array (Some (JArr (map JStr xs)))"
  by (induction xs) (simp_all add: is_string_array_def is_string_def)

lemma is_AnalysisResult_analysis_json: "is_AnalysisResult (analysis_json r)"
  by (simp add: is_AnalysisResult_def analysis_json_def is_string_def is_number_def
      is_string_array_strings)

text \<open>
  C8. When the current result has the declared type (its numbers safe integers, its property
  names distinct and none an array index), \<^verbatim>\<open>handleExportJson\<close> offers a download named after
  the result's ticker and run id,
  \<^verbatim>\<open><ticker>_analysis_<runId>.json\<close>, whose content is the result written by
  \<^verbatim>\<open>JSON.stringify\<close> with an indentation of two; \<^verbatim>\<open>JSON.parse\<close> of that content is the result
  again.
\<close>

theorem export_roundtrip:
  assumes "is_AnalysisResult (result st)" and "json_ok (result st)"
  shows "\<exists>t i. get_prop (result st) ''ticker'' = Some (Some (JStr t))
      \<and> get_prop (result st) ''runId'' = Some (Some (JStr i))
      \<and> handleExportJson st =
          Some \<lparr>filename = t @ ''_analysis_'' @ i @ ''.json'', mime = ''application/json'',
                content = JSON_stringify_indent 2 (result st)\<rparr>
      \<and> JSON_parse (JSON_stringify_indent 2 (result st)) = Some (result st)"
proof -
  from assms(1) obtain kvs where v: "result st = JObj kvs"
    by (cases "result st") (simp_all add: is_AnalysisResult_def)
  from assms(1) v obtain t where t: "map_of kvs ''ticker'' = Some (JStr t)"
    by (auto simp: is_AnalysisResult_def is_string_def split: option.splits json.splits)
  from assms(1) v obtain i where i: "map_of kvs ''runId'' = Some (JStr i)"
    by (auto simp: is_AnalysisResult_def is_string_def split: option.splits json.splits)
  have rt: "JSON_parse (JSON_stringify_indent 2 (result st)) = Some (result st)"
    by (rule JSON_parse_stringify(1) [OF assms(2)])
  from v t i rt show ?thesis
    by (simp add: handleExportJson_def template_part_def)
qed

lemma show_nat_72: "show_nat 72 = ''72''"
  by (simp add: show_nat.simps [of 72] show_nat.simps [of 7] digit_char_def)

lemma show_nat_55: "show_nat 55 = ''55''"
  by (simp add: show_nat.simps [of 55] show_nat.simps [of 5] digit_char_def)

lemma quote_plain:
  "list_all (\<lambda>c. c \<noteq> CHR 0x22 \<and> c \<noteq> CHR 0x5C \<and> \<not> (of_char c :: nat) < 32) s \<Longrightarrow>
   quote s = CHR 0x22 # s @ [CHR 0x22]"
  by (induction s) (auto simp: quote_def quote_char_def)

lemma stringify_example:
  "JSON_stringify_indent 2 (analysis_json example_result) = example_export"
  by (simp add: JSON_stringify_indent_def analysis_json_def example_result_def example_export_def
      show_int_def show_nat_72 show_nat_55 quote_plain numeral_2_eq_2)

theorem export_roundtrip_witness:
  "is_AnalysisResult (result (initial\<lparr>result := analysis_json example_result\<rparr>))
   \<and> json_ok (result (initial\<lparr>result := analysis_json example_result\<rparr>))
   \<and> handleExportJson (initial\<lparr>result := analysis_json example_result\<rparr>) =
       Some \<lparr>filename = ''HM-B_analysis_run-17.json'', mime = ''application/json'',
             content = example_export\<rparr>
   \<and> JSON_parse example_export = Some (analysis_json example_result)"
proof -
  have a: "is_AnalysisResult (result (initial\<lparr>result := analysis_json example_result\<rparr>))"
    by (simp add: is_AnalysisResult_analysis_json)
  have b: "json_ok (result (initial\<lparr>result := analysis_json example_result\<rparr>))"
    by (simp add: json_ok_analysis_json example_result_def)
  have t: "get_prop (analysis_json example_result) ''ticker'' = Some (Some (JStr ''HM-B''))"
    and i: "get_prop (analysis_json example_result) ''runId'' = Some (Some (JStr ''run-17''))"
    by (simp_all add: analysis_json_def example_result_def)
  from export_roundtrip [OF a b] a b t i show ?thesis
    by (auto simp: stringify_example)
qed

section \<open>The result panel\<close>

text \<open>
  C9. The panel for a result shows the ticker in its heading, each score as a number followed
  by \<^verbatim>\<open>/100\<close>, and each justification. A list of recommendations is rendered, under its heading,
  exactly when it is not empty; for an empty list neither the heading nor a list is rendered.
\<close>

theorem result_panel_contents:
  "H2 (''Results for '' @ ticker' r) \<in> set (render_result r)
   \<and> H3 (''Trust (Transparency): '' @ show_int (trustScore r) @ ''/100'') \<in> set (render_result r)
   \<and> P (trustJustification r) \<in> set (render_result r)
   \<and> H3 (''Growth (Differentiation): '' @ show_int (growthScore r) @ ''/100'') \<in> set (render_result r)
   \<and> P (growthJustification r) \<in> set (render_result r)
   \<and> (H4 ''Transparency Recommendations:'' \<in> set (render_result r) \<longleftrightarrow> trustRecommendations r \<noteq> [])
   \<and> (UL (trustRecommendations r) \<in> set (render_result r) \<longleftrightarrow> trustRecommendations r \<noteq> [])
   \<and> (H4 ''Differentiation Recommendations:'' \<in> set (render_result r) \<longleftrightarrow> growthRecommendations r \<noteq> [])
   \<and> (UL (growthRecommendations r) \<in> set (render_result r) \<longleftrightarrow> growthRecommendations r \<noteq> [])
   \<and> (trustRecommendations r = [] \<longrightarrow> trust_section r =
        [H3 (''Trust (Transparency): '' @ show_int (trustScore r) @ ''/100''), P (trustJustification r)])
   \<and> (trustRecommendations r \<noteq> [] \<longrightarrow> trust_section r =
        [H3 (''Trust (Transparency): '' @ show_int (trustScore r) @ ''/100''), P (trustJustification r),
         H4 ''Transparency Recommendations:'', UL (trustRecommendations r)])
   \<and> (growthRecommendations r = [] \<longrightarrow> growth_section r =
        [H3 (''Growth (Differentiation): '' @ show_int (growthScore r) @ ''/100''), P (growthJustification r)])
   \<and> (growthRecommendations r \<noteq> [] \<longrightarrow> growth_section r =
        [H3 (''Growth (Differentiation): '' @ show_int (growthScore r) @ ''/100''), P (growthJustification r),
         H4 ''Differentiation Recommendations:'', UL (growthRecommendations r)])"
  by (auto simp: render_result_def trust_section_def growth_section_def)

theorem result_panel_contents_witness:
  "render_result example_result =
     [H2 ''Results for HM-B'',
      H3 ''Trust (Transparency): 72/100'', P ''Clear reporting.'',
      H4 ''Transparency Recommendations:'', UL [''Publish audit notes'', ''Name the auditors''],
      H3 ''Growth (Differentiation): 55/100'', P ''Flat sales.'',
      P ''Stable.'', P ''Run ID: run-17'', Button ''Export JSON'']"
  using result_panel_contents [of example_result]
  by (simp add: render_result_def example_result_def show_int_def show_nat_72 show_nat_55)

end
